theory Spec2Isabelle
  imports Complex_Main "HOL-Library.Word"
begin

section \<open>JavaScript strings and the regular expressions of rtl-text-detector.js\<close>

text \<open>
  A JavaScript string is a sequence of UTF-16 code units. \<open>processedText[i]\<close> and
  \<open>char.length\<close> work on code units, so the model does too.
\<close>

type_synonym cu = "16 word"
type_synonym jsstring = "cu list"

text \<open>An ASCII literal of the source, as code units.\<close>

definition js :: "string \<Rightarrow> jsstring" where
  "js s = map (\<lambda>c. word_of_nat (of_char c)) s"

text \<open>
  The Unicode general categories \<open>\p{P}\<close>, \<open>\p{S}\<close>, \<open>\p{Z}\<close>, \<open>\p{C}\<close> and
  \<open>\p{L}\<close> come from the JavaScript engine's Unicode tables, which are no part of the
  repository: they are a parameter of the model. The source only ever tests strings of one
  code unit against them (under the \<open>u\<close> flag a lone surrogate is a code point of its own).
\<close>

record ucd =
  isP :: "cu \<Rightarrow> bool"
  isS :: "cu \<Rightarrow> bool"
  isZ :: "cu \<Rightarrow> bool"
  isC :: "cu \<Rightarrow> bool"
  isL :: "cu \<Rightarrow> bool"

text \<open>
  \<open>\s\<close> of ECMAScript (WhiteSpace and LineTerminator), which is also what
  \<open>String.prototype.trim\<close> removes; \<open>\d\<close> is \<open>[0-9]\<close>.
\<close>

definition is_space :: "cu \<Rightarrow> bool" where
  "is_space c = (c = 0x09 \<or> c = 0x0A \<or> c = 0x0B \<or> c = 0x0C \<or> c = 0x0D \<or> c = 0x20
     \<or> c = 0xA0 \<or> c = 0x1680 \<or> (0x2000 \<le> c \<and> c \<le> 0x200A) \<or> c = 0x2028 \<or> c = 0x2029
     \<or> c = 0x202F \<or> c = 0x205F \<or> c = 0x3000 \<or> c = 0xFEFF)"

definition is_digit :: "cu \<Rightarrow> bool" where
  "is_digit c = (0x30 \<le> c \<and> c \<le> 0x39)"

text \<open>
  Every regular expression of the source is a sequence of quantified one-character atoms,
  possibly anchored with \<open>^\<close> and \<open>$\<close>. An atom is a character class with the least and
  the greatest number of repetitions (\<open>None\<close>: unbounded). Quantifiers are greedy and
  backtrack, as in ECMAScript: the longest repetition is tried first.
\<close>

datatype atom = Atom "cu \<Rightarrow> bool" nat "nat option"

record regex =
  anchor_start :: bool
  atoms :: "atom list"
  anchor_end :: bool

abbreviation lit :: "cu \<Rightarrow> atom" where
  "lit c \<equiv> Atom (\<lambda>x. x = c) 1 (Some 1)"

abbreviation one :: "(cu \<Rightarrow> bool) \<Rightarrow> atom" where
  "one p \<equiv> Atom p 1 (Some 1)"

abbreviation star :: "(cu \<Rightarrow> bool) \<Rightarrow> atom" where
  "star p \<equiv> Atom p 0 None"

abbreviation plus :: "(cu \<Rightarrow> bool) \<Rightarrow> atom" where
  "plus p \<equiv> Atom p 1 None"

abbreviation opt :: "(cu \<Rightarrow> bool) \<Rightarrow> atom" where
  "opt p \<equiv> Atom p 0 (Some 1)"

definition count_while :: "(cu \<Rightarrow> bool) \<Rightarrow> nat option \<Rightarrow> jsstring \<Rightarrow> nat" where
  "count_while p hi s =
     (case hi of None \<Rightarrow> length (takeWhile p s) | Some h \<Rightarrow> min h (length (takeWhile p s)))"

fun first_some :: "'a option list \<Rightarrow> 'a option" where
  "first_some [] = None"
| "first_some (None # xs) = first_some xs"
| "first_some (Some y # xs) = Some y"

text \<open>
  \<open>match_here e as s\<close> matches the atoms at the start of \<open>s\<close> and returns what is left of
  \<open>s\<close> after the match; \<open>e\<close> says whether the match must reach the end of the string.
\<close>

fun match_here :: "bool \<Rightarrow> atom list \<Rightarrow> jsstring \<Rightarrow> jsstring option" where
  "match_here e [] s = (if e \<and> s \<noteq> [] then None else Some s)"
| "match_here e (Atom p lo hi # r) s =
     first_some (map (\<lambda>k. match_here e r (drop k s)) (rev [lo ..< Suc (count_while p hi s)]))"

text \<open>
  \<open>rx_exec r pre s\<close> looks for the leftmost match in \<open>s\<close>, \<open>pre\<close> being the text already
  passed over; it returns the text before the match and the text after it. Without the
  \<open>m\<close> flag, \<open>^\<close> matches at the start of the string only.
\<close>

fun rx_exec :: "regex \<Rightarrow> jsstring \<Rightarrow> jsstring \<Rightarrow> (jsstring \<times> jsstring) option" where
  "rx_exec r pre [] =
     (case match_here (anchor_end r) (atoms r) [] of
        Some rest \<Rightarrow> Some (pre, rest)
      | None \<Rightarrow> None)"
| "rx_exec r pre (c # s) =
     (case match_here (anchor_end r) (atoms r) (c # s) of
        Some rest \<Rightarrow> Some (pre, rest)
      | None \<Rightarrow> if anchor_start r then None else rx_exec r (pre @ [c]) s)"

text \<open>\<open>regex.test(s)\<close> and \<open>s.replace(regex, '')\<close> for a regex without the \<open>g\<close> flag.\<close>

definition rx_test :: "regex \<Rightarrow> jsstring \<Rightarrow> bool" where
  "rx_test r s = (rx_exec r [] s \<noteq> None)"

definition rx_replace_empty :: "regex \<Rightarrow> jsstring \<Rightarrow> jsstring" where
  "rx_replace_empty r s = (case rx_exec r [] s of None \<Rightarrow> s | Some (pre, rest) \<Rightarrow> pre @ rest)"

definition js_trim :: "jsstring \<Rightarrow> jsstring" where
  "js_trim s = rev (dropWhile is_space (rev (dropWhile is_space s)))"

section \<open>rtl-text-detector.js\<close>

datatype DirectionSetting = Ltr | Rtl | Auto

text \<open>
  \<open>const HEBREW_RANGES = [/\u0590-\u05FF/]\<close> and the five of \<open>ARABIC_RANGES\<close>: each is
  written without the brackets of a character class, so it is the three literal characters
  first, \<open>-\<close>, last.
\<close>

definition range_rx :: "cu \<Rightarrow> cu \<Rightarrow> regex" where
  "range_rx a b = \<lparr>anchor_start = False, atoms = [lit a, lit 0x2D, lit b], anchor_end = False\<rparr>"

definition HEBREW_RANGES :: "regex list" where
  "HEBREW_RANGES = [range_rx 0x0590 0x05FF]"

definition ARABIC_RANGES :: "regex list" where
  "ARABIC_RANGES = [range_rx 0x0600 0x06FF, range_rx 0x0750 0x077F, range_rx 0x08A0 0x08FF,
     range_rx 0xFB50 0xFDFF, range_rx 0xFE70 0xFEFF]"

definition RTL_RANGES :: "regex list" where
  "RTL_RANGES = HEBREW_RANGES @ ARABIC_RANGES"

text \<open>
  \<open>isRtlChar(char)\<close>: \<open>!char || char.length !== 1\<close> returns false; otherwise the first range
  whose \<open>test\<close> succeeds returns true.
\<close>

definition isRtlChar :: "jsstring \<Rightarrow> bool" where
  "isRtlChar char =
     (if char = [] \<or> length char \<noteq> 1 then False
      else list_ex (\<lambda>range. rx_test range char) RTL_RANGES)"

text \<open>The five \<open>markdownPrefixes\<close>, in the order of the source.\<close>

definition TASK_RX :: regex where
  \<comment> \<open>\<open>/^\s*-\s*\[\s*[xX]?\s*\]\s*/\<close>\<close>
  "TASK_RX = \<lparr>anchor_start = True,
     atoms = [star is_space, lit 0x2D, star is_space, lit 0x5B, star is_space,
              opt (\<lambda>c. c = 0x78 \<or> c = 0x58), star is_space, lit 0x5D, star is_space],
     anchor_end = False\<rparr>"

definition BULLET_RX :: regex where
  \<comment> \<open>\<open>/^\s*[\-\*\+]\s+/\<close>\<close>
  "BULLET_RX = \<lparr>anchor_start = True,
     atoms = [star is_space, one (\<lambda>c. c = 0x2D \<or> c = 0x2A \<or> c = 0x2B), plus is_space],
     anchor_end = False\<rparr>"

definition ORDERED_RX :: regex where
  \<comment> \<open>\<open>/^\s*\d+[\.\)]\s+/\<close>\<close>
  "ORDERED_RX = \<lparr>anchor_start = True,
     atoms = [star is_space, plus is_digit, one (\<lambda>c. c = 0x2E \<or> c = 0x29), plus is_space],
     anchor_end = False\<rparr>"

definition HEADING_RX :: regex where
  \<comment> \<open>\<open>/^\s*#{1,6}\s+/\<close>\<close>
  "HEADING_RX = \<lparr>anchor_start = True,
     atoms = [star is_space, Atom (\<lambda>c. c = 0x23) 1 (Some 6), plus is_space],
     anchor_end = False\<rparr>"

definition QUOTE_RX :: regex where
  \<comment> \<open>\<open>/^\s*>{1,}\s*/\<close>\<close>
  "QUOTE_RX = \<lparr>anchor_start = True,
     atoms = [star is_space, Atom (\<lambda>c. c = 0x3E) 1 None, star is_space],
     anchor_end = False\<rparr>"

definition markdownPrefixes :: "regex list" where
  "markdownPrefixes = [TASK_RX, BULLET_RX, ORDERED_RX, HEADING_RX, QUOTE_RX]"

text \<open>
  \<open>for (const prefixRegex of markdownPrefixes) processedText = processedText.replace(prefixRegex, '')\<close>
\<close>

definition strip_prefixes :: "jsstring \<Rightarrow> jsstring" where
  "strip_prefixes s = foldl (\<lambda>processedText prefixRegex. rx_replace_empty prefixRegex processedText)
     s markdownPrefixes"

text \<open>\<open>/^[\s\d\p{P}\p{S}\p{Z}\p{C}]*$/u\<close>, \<open>/[a-zA-Z]/\<close> and \<open>/\p{L}/u\<close>.\<close>

definition NEUTRAL_RX :: "ucd \<Rightarrow> regex" where
  "NEUTRAL_RX u = \<lparr>anchor_start = True,
     atoms = [star (\<lambda>c. is_space c \<or> is_digit c \<or> isP u c \<or> isS u c \<or> isZ u c \<or> isC u c)],
     anchor_end = True\<rparr>"

definition LATIN_RX :: regex where
  "LATIN_RX = \<lparr>anchor_start = False,
     atoms = [one (\<lambda>c. (0x61 \<le> c \<and> c \<le> 0x7A) \<or> (0x41 \<le> c \<and> c \<le> 0x5A))],
     anchor_end = False\<rparr>"

definition LETTER_RX :: "ucd \<Rightarrow> regex" where
  "LETTER_RX u = \<lparr>anchor_start = False, atoms = [one (isL u)], anchor_end = False\<rparr>"

text \<open>Step 3: the loop that counts the leading characters the neutral regex accepts.\<close>

fun firstSignificantCharIndex :: "ucd \<Rightarrow> jsstring \<Rightarrow> nat" where
  "firstSignificantCharIndex u [] = 0"
| "firstSignificantCharIndex u (c # cs) =
     (if rx_test (NEUTRAL_RX u) [c] then Suc (firstSignificantCharIndex u cs) else 0)"

text \<open>Step 4: the first strong character among the characters scanned.\<close>

fun first_strong :: "jsstring \<Rightarrow> DirectionSetting option" where
  "first_strong [] = None"
| "first_strong (c # cs) =
     (if isRtlChar [c] then Some Rtl
      else if rx_test LATIN_RX [c] then Some Ltr
      else first_strong cs)"

text \<open>
  Step 5: the two counters of the fallback loop. The quotient of the source is a quotient
  of two exact integers compared with 0.4; the model compares the rational numbers.
\<close>

fun count_chars :: "ucd \<Rightarrow> jsstring \<Rightarrow> nat \<times> nat \<Rightarrow> nat \<times> nat" where
  "count_chars u [] (rtlCharCount, totalScriptChars) = (rtlCharCount, totalScriptChars)"
| "count_chars u (c # cs) (rtlCharCount, totalScriptChars) =
     count_chars u cs
       (if isRtlChar [c] then Suc rtlCharCount else rtlCharCount,
        if rx_test (LETTER_RX u) [c] then Suc totalScriptChars else totalScriptChars)"

definition majority :: "ucd \<Rightarrow> jsstring \<Rightarrow> DirectionSetting" where
  "majority u s =
     (case count_chars u s (0, 0) of (rtlCharCount, totalScriptChars) \<Rightarrow>
        if totalScriptChars = 0 then Ltr
        else if (of_nat rtlCharCount / of_nat totalScriptChars :: rat) > 4 / 10 then Rtl
        else Ltr)"

text \<open>
  The argument of \<open>getBlockDirection\<close>: a string, or some other value (null, undefined, a
  number), for which \<open>typeof textBlock !== 'string'\<close> holds.
\<close>

datatype jsvalue = JString jsstring | JOther

definition fence :: jsstring where
  "fence = [0x60, 0x60, 0x60]"

definition getBlockDirection_str :: "ucd \<Rightarrow> jsstring \<Rightarrow> DirectionSetting" where
  "getBlockDirection_str u textBlock =
     (if textBlock = [] then Ltr
      else if take 3 textBlock = fence then Ltr
      else
        let processedText = strip_prefixes textBlock;
            processedText = js_trim processedText;
            processedText = drop (firstSignificantCharIndex u processedText) processedText
        in if length processedText = 0 then Ltr
           else (case first_strong (take (min (length processedText) 200) processedText) of
                   Some d \<Rightarrow> d
                 | None \<Rightarrow> majority u processedText))"

fun getBlockDirection :: "ucd \<Rightarrow> jsvalue \<Rightarrow> DirectionSetting" where
  "getBlockDirection u JOther = Ltr"
| "getBlockDirection u (JString textBlock) = getBlockDirection_str u textBlock"


text \<open>
  For comparison with the source: the least number of characters a regex consumes, the
  stripping the specification describes (only the first pattern that matches is applied,
  once), and whether some pattern after the first matching one matches what is left.
\<close>

fun atom_min :: "atom \<Rightarrow> nat" where
  "atom_min (Atom p lo hi) = lo"

definition min_length :: "regex \<Rightarrow> nat" where
  "min_length r = sum_list (map atom_min (atoms r))"

fun strip_first_matching :: "regex list \<Rightarrow> jsstring \<Rightarrow> jsstring" where
  "strip_first_matching [] s = s"
| "strip_first_matching (r # rs) s =
     (if rx_test r s then rx_replace_empty r s else strip_first_matching rs s)"

fun later_match :: "regex list \<Rightarrow> jsstring \<Rightarrow> bool" where
  "later_match [] s = False"
| "later_match (r # rs) s =
     (if rx_test r s then list_ex (\<lambda>r'. rx_test r' (rx_replace_empty r s)) rs
      else later_match rs s)"

text \<open>The heading \<open># shalom olam\<close> in Hebrew letters, and a task item holding a bullet.\<close>

definition hebrew_heading :: jsstring where
  "hebrew_heading = [0x23, 0x20, 0x5E9, 0x5DC, 0x5D5, 0x5DD, 0x20, 0x5E2, 0x5D5, 0x5DC, 0x5DD]"

definition task_then_bullet :: jsstring where
  "task_then_bullet = js ''- [ ] - abc''"

section \<open>The plugin: settings, host interface and state\<close>

record UiContainerSettings =
  direction :: DirectionSetting

record IntelligentRtlSettings =
  globalDefaultDirection :: DirectionSetting
  editor :: UiContainerSettings
  leftSidebar :: UiContainerSettings
  rightSidebar :: UiContainerSettings
  fileExplorer :: UiContainerSettings
  searchResults :: UiContainerSettings
  tagPane :: UiContainerSettings
  canvasCard :: UiContainerSettings
  enableAdvancedTextDetection :: bool
  mySetting :: string

definition DEFAULT_SETTINGS :: IntelligentRtlSettings where
  "DEFAULT_SETTINGS = \<lparr>
     globalDefaultDirection = Auto,
     editor = \<lparr>direction = Auto\<rparr>,
     leftSidebar = \<lparr>direction = Ltr\<rparr>,
     rightSidebar = \<lparr>direction = Ltr\<rparr>,
     fileExplorer = \<lparr>direction = Ltr\<rparr>,
     searchResults = \<lparr>direction = Auto\<rparr>,
     tagPane = \<lparr>direction = Auto\<rparr>,
     canvasCard = \<lparr>direction = Auto\<rparr>,
     enableAdvancedTextDetection = True,
     mySetting = ''default''\<rparr>"

text \<open>
  The host (the application's workspace and the DOM) is modelled the way the source uses
  it. A DOM node has an identity; what the source reads and writes of a node is a record:
  whether it is an element, whether \<open>document.body.contains\<close> it, its class list, its
  \<open>data-direction\<close> and \<open>data-effective-direction\<close> attributes, its text content, and its
  chain of parent nodes, nearest first, up to and excluding \<open>document.body\<close> (the nodes the
  \<open>parentNode\<close> loop of \<open>handleEditorMutationInner\<close> visits after the target).
\<close>

type_synonym node = nat

record dom_node =
  is_element :: bool
  in_body :: bool
  classList :: "string set"
  data_direction :: "DirectionSetting option"
  data_effective_direction :: "DirectionSetting option"
  textContent :: jsstring
  ancestors :: "node list"

record tfile =
  path :: string
  basename :: string
  extension :: string

record leaf =
  leaf_id :: string
  is_MarkdownView :: bool
  viewType :: string
  view_file :: "tfile option"
  containerEl :: node

record MutationRecord =
  mutation_type :: string
  target :: node
  addedNodes :: "node list"

text \<open>
  The metadata cache: \<open>getFileCache(file)\<close> throws, or returns null or a cache entry, whose
  \<open>frontmatter\<close> may be absent, whose \<open>direction\<close> key may be absent, and whose value is a
  string or some other value.
\<close>

datatype error = HostError

datatype fmvalue = FmString jsstring | FmOther

record frontmatter =
  fm_direction :: "fmvalue option"

record CachedMetadata =
  cache_frontmatter :: "frontmatter option"

datatype watcher = EditorWatcher | CanvasWatcher

text \<open>
  The plugin's fields and the host state it works on. A \<open>MutationObserver\<close> is the list of
  the nodes it observes (\<open>None\<close>: the field is null); the two \<open>Set<Element>\<close> fields are
  lists without duplicates, in insertion order. \<open>processFrontMatter_log\<close> records the
  writes handed to the host's file manager. Console output, notices and the status bar
  text are left out: nothing else reads them.
\<close>

record world =
  settings :: IntelligentRtlSettings
  editorMutationObserver :: "node list option"
  observedEditorElements :: "node list"
  activeNoteOverride :: "DirectionSetting option"
  canvasObserver :: "node list option"
  observedCanvasContainers :: "node list"
  document :: "node \<Rightarrow> dom_node"
  querySelector :: "node \<Rightarrow> string \<Rightarrow> node option"
  querySelectorAll :: "node \<Rightarrow> string \<Rightarrow> node list"
  allLeaves :: "leaf list"
  markdownLeaves :: "leaf list"
  activeMarkdownView :: "leaf option"
  activeFile :: "tfile option"
  leftSplit :: node
  rightSplit :: node
  getFileCache :: "tfile \<Rightarrow> error + CachedMetadata option"
  processFrontMatter_fails :: "tfile \<Rightarrow> bool"
  processFrontMatter_log :: "(tfile \<times> DirectionSetting option) list"

definition set_add :: "'a \<Rightarrow> 'a list \<Rightarrow> 'a list" where
  "set_add x xs = (if x \<in> set xs then xs else xs @ [x])"

definition mode_class :: "DirectionSetting \<Rightarrow> string" where
  "mode_class d = (case d of Ltr \<Rightarrow> ''ltr-mode'' | Rtl \<Rightarrow> ''rtl-mode'' | Auto \<Rightarrow> ''auto-mode'')"

definition update_node :: "node \<Rightarrow> (dom_node \<Rightarrow> dom_node) \<Rightarrow> world \<Rightarrow> world" where
  "update_node el f w = w\<lparr>document := (document w)(el := f (document w el))\<rparr>"

section \<open>applyDirectionToElement\<close>

definition applyDirectionToElement ::
  "ucd \<Rightarrow> node option \<Rightarrow> DirectionSetting \<Rightarrow> world \<Rightarrow> world" where
  "applyDirectionToElement u element dir w =
     (case element of
        None \<Rightarrow> w
      | Some el \<Rightarrow>
          if \<not> in_body (document w el) then w
          else
            let w = update_node el (\<lambda>e. e\<lparr>
                      data_direction := Some dir,
                      classList := classList e
                        - {''ltr-mode'', ''rtl-mode'', ''auto-mode'', ''auto-detect-direction''},
                      data_effective_direction := None\<rparr>) w
            in
            if dir = Auto then
              let w = update_node el
                        (\<lambda>e. e\<lparr>classList := insert ''auto-detect-direction'' (classList e)\<rparr>) w
              in
              if enableAdvancedTextDetection (settings w) then
                let detectedDir = getBlockDirection u (JString (textContent (document w el)))
                in update_node el (\<lambda>e. e\<lparr>
                     data_effective_direction := Some detectedDir,
                     classList := insert (mode_class detectedDir) (classList e)\<rparr>) w
              else
                let effectiveDirection =
                      (if globalDefaultDirection (settings w) = Auto then Ltr
                       else globalDefaultDirection (settings w))
                in update_node el (\<lambda>e. e\<lparr>
                     data_effective_direction := Some effectiveDirection,
                     classList := insert (mode_class effectiveDirection) (classList e)\<rparr>) w
            else
              update_node el (\<lambda>e. e\<lparr>
                data_effective_direction := Some dir,
                classList := insert (mode_class dir) (classList e)\<rparr>) w)"

section \<open>handleEditorMutationInner\<close>

text \<open>
  The first node on the way from the mutation's target to \<open>document.body\<close> that is an
  element of class \<open>cm-content\<close> in \<open>observedEditorElements\<close>.
\<close>

definition observed_editor_of :: "world \<Rightarrow> MutationRecord \<Rightarrow> node option" where
  "observed_editor_of w mutation =
     find (\<lambda>targetNode. is_element (document w targetNode)
             \<and> ''cm-content'' \<in> classList (document w targetNode)
             \<and> targetNode \<in> set (observedEditorElements w))
       (target mutation # ancestors (document w (target mutation)))"

fun changedEditorElements :: "world \<Rightarrow> MutationRecord list \<Rightarrow> node list \<Rightarrow> node list" where
  "changedEditorElements w [] acc = acc"
| "changedEditorElements w (mutation # mutations) acc =
     changedEditorElements w mutations
       (case observed_editor_of w mutation of None \<Rightarrow> acc | Some el \<Rightarrow> set_add el acc)"

definition userDirectionForThisEditor :: "world \<Rightarrow> DirectionSetting" where
  "userDirectionForThisEditor w =
     (case activeNoteOverride w of
        Some d \<Rightarrow> d
      | None \<Rightarrow> direction (editor (settings w)))"

definition reclassify_editor :: "ucd \<Rightarrow> node \<Rightarrow> world \<Rightarrow> world" where
  "reclassify_editor u editorContentElement w =
     (let owningLeaf = find (\<lambda>l. querySelector w (containerEl l) ''.cm-content''
                                     = Some editorContentElement) (markdownLeaves w)
      in case (activeFile w, owningLeaf) of
           (Some f, Some l) \<Rightarrow>
             if view_file l \<noteq> Some f then w
             else if userDirectionForThisEditor w = Auto
                     \<and> enableAdvancedTextDetection (settings w) then
               let detectedDir = getBlockDirection u
                                   (JString (textContent (document w editorContentElement)));
                   currentEffectiveDir = data_effective_direction (document w editorContentElement)
               in if currentEffectiveDir \<noteq> Some detectedDir then
                    update_node editorContentElement (\<lambda>e. e\<lparr>
                      data_effective_direction := Some detectedDir,
                      classList := insert (mode_class detectedDir)
                                     (classList e - {''ltr-mode'', ''rtl-mode''})\<rparr>) w
                  else w
             else w
         | _ \<Rightarrow> w)"

definition handleEditorMutationInner :: "ucd \<Rightarrow> MutationRecord list \<Rightarrow> world \<Rightarrow> world" where
  "handleEditorMutationInner u mutations w =
     foldl (\<lambda>w el. reclassify_editor u el w) w (changedEditorElements w mutations [])"

text \<open>The record \<open>{ target: element }\<close> the source passes for a synthetic notification.\<close>

definition target_only :: "node \<Rightarrow> MutationRecord" where
  "target_only el = \<lparr>mutation_type = [], target = el, addedNodes = []\<rparr>"

section \<open>Observers\<close>

definition get_observer :: "watcher \<Rightarrow> world \<Rightarrow> node list option" where
  "get_observer k w = (case k of EditorWatcher \<Rightarrow> editorMutationObserver w
                              | CanvasWatcher \<Rightarrow> canvasObserver w)"

definition get_observed :: "watcher \<Rightarrow> world \<Rightarrow> node list" where
  "get_observed k w = (case k of EditorWatcher \<Rightarrow> observedEditorElements w
                              | CanvasWatcher \<Rightarrow> observedCanvasContainers w)"

definition put_observer :: "watcher \<Rightarrow> node list option \<Rightarrow> world \<Rightarrow> world" where
  "put_observer k obs w = (case k of EditorWatcher \<Rightarrow> w\<lparr>editorMutationObserver := obs\<rparr>
                                  | CanvasWatcher \<Rightarrow> w\<lparr>canvasObserver := obs\<rparr>)"

definition put_observed :: "watcher \<Rightarrow> node list \<Rightarrow> world \<Rightarrow> world" where
  "put_observed k xs w = (case k of EditorWatcher \<Rightarrow> w\<lparr>observedEditorElements := xs\<rparr>
                                 | CanvasWatcher \<Rightarrow> w\<lparr>observedCanvasContainers := xs\<rparr>)"

definition manageObserver ::
  "ucd \<Rightarrow> watcher \<Rightarrow> node option \<Rightarrow> bool \<Rightarrow> string \<Rightarrow> world \<Rightarrow> world" where
  "manageObserver u k element shouldObserve logName w =
     (case (get_observer k w, element) of
        (Some targets, Some el) \<Rightarrow>
          if shouldObserve then
            if el \<notin> set (get_observed k w) then
              let w = put_observer k (Some (set_add el targets)) w;
                  w = put_observed k (set_add el (get_observed k w)) w
              in if take 7 logName = ''editor-'' \<and> ''cm-content'' \<in> classList (document w el)
                 then handleEditorMutationInner u [target_only el] w
                 else w
            else w
          else w
      | _ \<Rightarrow> w)"

definition cleanupOldObservers :: "watcher \<Rightarrow> node list \<Rightarrow> world \<Rightarrow> world" where
  "cleanupOldObservers k currentElementsToObserve w =
     (case get_observer k w of
        None \<Rightarrow> w
      | Some targets \<Rightarrow>
          let observedSet = get_observed k w;
              newObservedSet = filter (\<lambda>el. in_body (document w el)
                                         \<and> el \<in> set currentElementsToObserve) observedSet;
              w = (if length newObservedSet = 0 \<and> length observedSet > 0
                   then put_observer k (Some []) w else w)
          in put_observed k newObservedSet w)"

section \<open>applyAllUiSettings\<close>

definition or_else :: "'a option \<Rightarrow> 'a option \<Rightarrow> 'a option" where
  "or_else a b = (case a of Some x \<Rightarrow> Some x | None \<Rightarrow> b)"

definition cardContent :: "world \<Rightarrow> node \<Rightarrow> node option" where
  "cardContent w cardEl =
     or_else (querySelector w cardEl ''.canvas-card-content'')
       (or_else (querySelector w cardEl ''.canvas-card-text'') (Some cardEl))"

text \<open>
  The first \<open>iterateAllLeaves\<close> callback; the state threaded through the iteration is the
  world and the two sets \<open>currentEditorCMContentElements\<close> and
  \<open>currentCanvasViewContentElements\<close>.
\<close>

definition editor_leaf_direction :: "world \<Rightarrow> leaf \<Rightarrow> DirectionSetting" where
  "editor_leaf_direction w l =
     (case (activeFile w, activeNoteOverride w) of
        (Some f, Some d) \<Rightarrow> if view_file l = Some f then d else direction (editor (settings w))
      | _ \<Rightarrow> direction (editor (settings w)))"

definition apply_leaf ::
  "ucd \<Rightarrow> world \<times> node list \<times> node list \<Rightarrow> leaf \<Rightarrow> world \<times> node list \<times> node list" where
  "apply_leaf u st l =
     (case st of (w, currentEditor, currentCanvas) \<Rightarrow>
        if is_MarkdownView l then
          (case querySelector w (containerEl l) ''.cm-content'' of
             None \<Rightarrow> (w, currentEditor, currentCanvas)
           | Some editorCMContent \<Rightarrow>
               let dir = editor_leaf_direction w l;
                   w = applyDirectionToElement u (Some editorCMContent) dir w;
                   w = manageObserver u EditorWatcher (Some editorCMContent)
                         (dir = Auto \<and> enableAdvancedTextDetection (settings w))
                         (''editor-'' @ leaf_id l) w
               in (w, set_add editorCMContent currentEditor, currentCanvas))
        else if viewType l = ''canvas'' then
          let (w, currentCanvas) =
                (case querySelector w (containerEl l) ''.canvas-nodes'' of
                   None \<Rightarrow> (w, currentCanvas)
                 | Some canvasNodesElement \<Rightarrow>
                     (manageObserver u CanvasWatcher (Some canvasNodesElement) True
                        (''canvas-nodes-'' @ leaf_id l) w,
                      set_add canvasNodesElement currentCanvas));
              w = foldl (\<lambda>w cardEl. applyDirectionToElement u (cardContent w cardEl)
                                     (direction (canvasCard (settings w))) w)
                    w (querySelectorAll w (containerEl l) ''.canvas-card'')
          in (w, currentEditor, currentCanvas)
        else (w, currentEditor, currentCanvas))"

text \<open>The second \<open>iterateAllLeaves\<close> callback: file explorer, search and tag panes.\<close>

definition apply_pane :: "ucd \<Rightarrow> world \<Rightarrow> leaf \<Rightarrow> world" where
  "apply_pane u w l =
     (if viewType l = ''file-explorer'' then
        applyDirectionToElement u
          (or_else (querySelector w (containerEl l) ''.nav-files-container'') (Some (containerEl l)))
          (direction (fileExplorer (settings w))) w
      else if viewType l = ''search'' then
        applyDirectionToElement u
          (or_else (querySelector w (containerEl l) ''.search-results-container'')
             (Some (containerEl l)))
          (direction (searchResults (settings w))) w
      else if viewType l = ''tag'' then
        applyDirectionToElement u
          (or_else (querySelector w (containerEl l) ''.tag-pane-tags'')
             (or_else (querySelector w (containerEl l) ''.view-content'') (Some (containerEl l))))
          (direction (tagPane (settings w))) w
      else w)"

definition applyAllUiSettings :: "ucd \<Rightarrow> world \<Rightarrow> world" where
  "applyAllUiSettings u w =
     (case foldl (apply_leaf u) (w, [], []) (allLeaves w) of
        (w, currentEditorCMContentElements, currentCanvasViewContentElements) \<Rightarrow>
          let w = cleanupOldObservers EditorWatcher currentEditorCMContentElements w;
              w = cleanupOldObservers CanvasWatcher currentCanvasViewContentElements w;
              w = applyDirectionToElement u (Some (leftSplit w))
                    (direction (leftSidebar (settings w))) w;
              w = applyDirectionToElement u (Some (rightSplit w))
                    (direction (rightSidebar (settings w))) w
          in foldl (apply_pane u) w (allLeaves w))"

definition saveSettings :: "ucd \<Rightarrow> IntelligentRtlSettings \<Rightarrow> world \<Rightarrow> world" where
  "saveSettings u new_settings w = applyAllUiSettings u (w\<lparr>settings := new_settings\<rparr>)"

section \<open>The note override\<close>

definition directionToApply :: "world \<Rightarrow> DirectionSetting" where
  "directionToApply w =
     (case activeNoteOverride w of
        Some d \<Rightarrow> d
      | None \<Rightarrow> direction (editor (settings w)))"

definition refreshActiveEditorDirection :: "ucd \<Rightarrow> world \<Rightarrow> world" where
  "refreshActiveEditorDirection u w =
     (case activeMarkdownView w of
        None \<Rightarrow> w
      | Some activeLeaf \<Rightarrow>
          if view_file activeLeaf = None then w
          else
            (case querySelector w (containerEl activeLeaf) ''.cm-content'' of
               None \<Rightarrow> w
             | Some editorContentElement \<Rightarrow>
                 let dir = directionToApply w;
                     w = applyDirectionToElement u (Some editorContentElement) dir w
                 in if dir = Auto \<and> enableAdvancedTextDetection (settings w)
                       \<and> editorMutationObserver w \<noteq> None
                       \<and> editorContentElement \<in> set (observedEditorElements w)
                    then handleEditorMutationInner u [target_only editorContentElement] w
                    else w))"

text \<open>
  \<open>directionFromFm && ['ltr', 'rtl', 'auto'].includes(directionFromFm) ? directionFromFm : null\<close>
\<close>

definition override_of_value :: "fmvalue option \<Rightarrow> DirectionSetting option" where
  "override_of_value directionFromFm =
     (case directionFromFm of
        Some (FmString s) \<Rightarrow>
          if s = js ''ltr'' then Some Ltr
          else if s = js ''rtl'' then Some Rtl
          else if s = js ''auto'' then Some Auto
          else None
      | _ \<Rightarrow> None)"

text \<open>The body of the \<open>try\<close> block of \<open>handleFileOpen\<close>; \<open>Inl\<close> is a throw.\<close>

definition read_override :: "world \<Rightarrow> tfile option \<Rightarrow> error + DirectionSetting option" where
  "read_override w file =
     (case file of
        None \<Rightarrow> Inr None
      | Some f \<Rightarrow>
          if extension f = ''md'' then
            (case getFileCache w f of
               Inl e \<Rightarrow> Inl e
             | Inr fileCache \<Rightarrow>
                 Inr (override_of_value
                        (case fileCache of
                           None \<Rightarrow> None
                         | Some c \<Rightarrow> (case cache_frontmatter c of
                                        None \<Rightarrow> None
                                      | Some fm \<Rightarrow> fm_direction fm))))
          else Inr None)"

definition handleFileOpen :: "ucd \<Rightarrow> tfile option \<Rightarrow> world \<Rightarrow> world" where
  "handleFileOpen u file w =
     (let w = (case read_override w file of
                 Inr ov \<Rightarrow> w\<lparr>activeNoteOverride := ov\<rparr>
               | Inl e \<Rightarrow> w\<lparr>activeNoteOverride := None\<rparr>)
      in refreshActiveEditorDirection u w)"

definition clearActiveNoteOverrideAndRefreshEditor :: "ucd \<Rightarrow> world \<Rightarrow> world" where
  "clearActiveNoteOverrideAndRefreshEditor u w =
     (let needsUpdate = (activeNoteOverride w \<noteq> None);
          w = w\<lparr>activeNoteOverride := None\<rparr>
      in if needsUpdate then refreshActiveEditorDirection u w else w)"

definition updateNoteFrontmatterDirection ::
  "tfile \<Rightarrow> DirectionSetting option \<Rightarrow> world \<Rightarrow> world" where
  "updateNoteFrontmatterDirection file dir w =
     (if processFrontMatter_fails w file then w
      else w\<lparr>processFrontMatter_log := processFrontMatter_log w @ [(file, dir)]\<rparr>)"

definition setNoteDirection :: "ucd \<Rightarrow> DirectionSetting option \<Rightarrow> world \<Rightarrow> world" where
  "setNoteDirection u dir w =
     (case activeFile w of
        None \<Rightarrow> w
      | Some f \<Rightarrow>
          if extension f \<noteq> ''md'' then w
          else
            let w = w\<lparr>activeNoteOverride := dir\<rparr>;
                w = updateNoteFrontmatterDirection f dir w
            in refreshActiveEditorDirection u w)"

text \<open>The click handler of the status bar item.\<close>

definition nextDirection :: "DirectionSetting option \<Rightarrow> DirectionSetting option" where
  "nextDirection currentOverride =
     (if currentOverride = Some Ltr then Some Rtl
      else if currentOverride = Some Rtl then Some Auto
      else if currentOverride = Some Auto then None
      else Some Ltr)"

definition statusBarClick :: "ucd \<Rightarrow> world \<Rightarrow> world" where
  "statusBarClick u w =
     (case activeFile w of
        None \<Rightarrow> w
      | Some f \<Rightarrow>
          if extension f \<noteq> ''md'' then w
          else setNoteDirection u (nextDirection (activeNoteOverride w)) w)"

section \<open>handleCanvasMutation\<close>

definition apply_added_node :: "ucd \<Rightarrow> world \<Rightarrow> node \<Rightarrow> world" where
  "apply_added_node u w n =
     (if is_element (document w n) \<and> ''canvas-card'' \<in> classList (document w n)
      then applyDirectionToElement u (cardContent w n) (direction (canvasCard (settings w))) w
      else w)"

definition handleCanvasMutation :: "ucd \<Rightarrow> MutationRecord list \<Rightarrow> world \<Rightarrow> world" where
  "handleCanvasMutation u mutations w =
     foldl (\<lambda>w mutation.
              if mutation_type mutation = ''childList''
              then foldl (apply_added_node u) w (addedNodes mutation)
              else w)
       w mutations"

section \<open>debounce\<close>

text \<open>
  The host's timers: \<open>setTimeout\<close> registers a callback (here: the arguments it will call
  \<open>func\<close> with) under a fresh identifier, to run \<open>delay\<close> time units after the call;
  \<open>clearTimeout\<close> removes it. Time is a natural number. A timer runs when it is due: the
  timers due at or before an event have run, in order of their due time, when the event is
  handled.
\<close>

record 'a timers =
  next_id :: nat
  pending :: "(nat \<times> nat \<times> 'a) list"

definition no_timers :: "'a timers" where
  "no_timers = \<lparr>next_id = 0, pending = []\<rparr>"

definition setTimeout :: "'a \<Rightarrow> nat \<Rightarrow> nat \<Rightarrow> 'a timers \<Rightarrow> nat \<times> 'a timers" where
  "setTimeout args delay now tm =
     (next_id tm,
      tm\<lparr>next_id := Suc (next_id tm), pending := pending tm @ [(next_id tm, now + delay, args)]\<rparr>)"

definition clearTimeout :: "nat \<Rightarrow> 'a timers \<Rightarrow> 'a timers" where
  "clearTimeout i tm = tm\<lparr>pending := filter (\<lambda>(j, due, args). j \<noteq> i) (pending tm)\<rparr>"

definition run_due :: "nat \<Rightarrow> 'a timers \<Rightarrow> 'a list \<times> 'a timers" where
  "run_due now tm =
     (map (\<lambda>(j, due, args). args)
        (sort_key (\<lambda>(j, due, args). due) (filter (\<lambda>(j, due, args). due \<le> now) (pending tm))),
      tm\<lparr>pending := filter (\<lambda>(j, due, args). \<not> due \<le> now) (pending tm)\<rparr>)"

definition run_all :: "'a timers \<Rightarrow> 'a list" where
  "run_all tm = map (\<lambda>(j, due, args). args) (sort_key (\<lambda>(j, due, args). due) (pending tm))"

text \<open>
  The function \<open>debounce(func, delay)\<close> returns, called at time \<open>now\<close> with \<open>args\<close>; its
  closure holds \<open>timeoutId\<close>.
\<close>

definition debounced ::
  "nat \<Rightarrow> nat \<Rightarrow> 'a \<Rightarrow> nat option \<times> 'a timers \<Rightarrow> nat option \<times> 'a timers" where
  "debounced delay now args st =
     (case st of (timeoutId, tm) \<Rightarrow>
        let tm = (case timeoutId of Some i \<Rightarrow> clearTimeout i tm | None \<Rightarrow> tm);
            (i, tm) = setTimeout args delay now tm
        in (Some i, tm))"

text \<open>
  Notifications \<open>(t, args)\<close> delivered to the debounced handler in this order, and then all
  the time the remaining timers need; the result is the list of the arguments \<open>func\<close> was
  called with, one entry for each call.
\<close>

fun deliver :: "nat \<Rightarrow> (nat \<times> 'a) list \<Rightarrow> nat option \<times> 'a timers \<Rightarrow> 'a list" where
  "deliver delay [] (timeoutId, tm) = run_all tm"
| "deliver delay ((t, args) # ns) (timeoutId, tm) =
     (case run_due t tm of (calls, tm) \<Rightarrow>
        calls @ deliver delay ns (debounced delay t args (timeoutId, tm)))"

text \<open>
  \<open>this.debounce(this.handleEditorMutationInner.bind(this), 500)\<close>: the handler's calls for
  a sequence of mutation notifications, from \<open>onload\<close> on.
\<close>

definition debouncedHandleEditorMutation_calls ::
  "(nat \<times> MutationRecord list) list \<Rightarrow> MutationRecord list list" where
  "debouncedHandleEditorMutation_calls ns = deliver 500 ns (None, no_timers)"

text \<open>Every gap between consecutive notifications is longer than the delay.\<close>

fun spaced_apart :: "nat \<Rightarrow> (nat \<times> 'a) list \<Rightarrow> bool" where
  "spaced_apart delay [] = True"
| "spaced_apart delay [n] = True"
| "spaced_apart delay ((t, a) # (t', a') # ns) = (t + delay < t' \<and> spaced_apart delay ((t', a') # ns))"

text \<open>All notifications lie in one window: in time order, the last less than \<open>delay\<close> after the first.\<close>

definition within_window :: "nat \<Rightarrow> (nat \<times> 'a) list \<Rightarrow> bool" where
  "within_window delay ns =
     (ns \<noteq> [] \<and> sorted (map fst ns) \<and> fst (last ns) < fst (hd ns) + delay)"

section \<open>A workspace with one note\<close>

text \<open>
  A sample of the Unicode categories, enough for the texts used below: ASCII and the
  letters of the Hebrew and Arabic blocks.
\<close>

definition sample_ucd :: ucd where
  "sample_ucd = \<lparr>
     isP = (\<lambda>c. (0x21 \<le> c \<and> c \<le> 0x23) \<or> (0x25 \<le> c \<and> c \<le> 0x2A) \<or> (0x2C \<le> c \<and> c \<le> 0x2F)
                \<or> c = 0x3A \<or> c = 0x3B \<or> c = 0x3F \<or> c = 0x40 \<or> (0x5B \<le> c \<and> c \<le> 0x5D)
                \<or> c = 0x5F \<or> c = 0x7B \<or> c = 0x7D),
     isS = (\<lambda>c. c = 0x24 \<or> c = 0x2B \<or> (0x3C \<le> c \<and> c \<le> 0x3E) \<or> c = 0x5E \<or> c = 0x60
                \<or> c = 0x7C \<or> c = 0x7E),
     isZ = (\<lambda>c. c = 0x20 \<or> c = 0xA0),
     isC = (\<lambda>c. c < 0x20 \<or> (0x7F \<le> c \<and> c \<le> 0x9F) \<or> (0xD800 \<le> c \<and> c \<le> 0xDFFF)),
     isL = (\<lambda>c. (0x41 \<le> c \<and> c \<le> 0x5A) \<or> (0x61 \<le> c \<and> c \<le> 0x7A)
                \<or> (0x5D0 \<le> c \<and> c \<le> 0x5EA) \<or> (0x620 \<le> c \<and> c \<le> 0x64A))\<rparr>"

text \<open>
  One markdown leaf (container 1) whose editor content element is node 2, showing the
  active file \<open>note.md\<close>; the sidebars are nodes 3 and 4. The observers exist and observe
  nothing yet, as after \<open>onload\<close>. The metadata cache knows three more files.
\<close>

definition note_file :: tfile where
  "note_file = \<lparr>path = ''note.md'', basename = ''note'', extension = ''md''\<rparr>"

definition rtl_file :: tfile where
  "rtl_file = \<lparr>path = ''rtl.md'', basename = ''rtl'', extension = ''md''\<rparr>"

definition odd_file :: tfile where
  "odd_file = \<lparr>path = ''odd.md'', basename = ''odd'', extension = ''md''\<rparr>"

definition broken_file :: tfile where
  "broken_file = \<lparr>path = ''broken.md'', basename = ''broken'', extension = ''md''\<rparr>"

definition note_leaf :: leaf where
  "note_leaf = \<lparr>leaf_id = ''a1'', is_MarkdownView = True, viewType = ''markdown'',
     view_file = Some note_file, containerEl = 1\<rparr>"

definition plain_node :: dom_node where
  "plain_node = \<lparr>is_element = True, in_body = True, classList = {}, data_direction = None,
     data_effective_direction = None, textContent = [], ancestors = []\<rparr>"

definition editor_node :: dom_node where
  "editor_node = \<lparr>is_element = True, in_body = True, classList = {''cm-content''},
     data_direction = None, data_effective_direction = None, textContent = hebrew_heading,
     ancestors = [1]\<rparr>"

definition one_note :: world where
  "one_note = \<lparr>
     settings = DEFAULT_SETTINGS,
     editorMutationObserver = Some [],
     observedEditorElements = [],
     activeNoteOverride = None,
     canvasObserver = Some [],
     observedCanvasContainers = [],
     document = (\<lambda>n. if n = 2 then editor_node else plain_node),
     querySelector = (\<lambda>n sel. if n = 1 \<and> sel = ''.cm-content'' then Some 2 else None),
     querySelectorAll = (\<lambda>n sel. []),
     allLeaves = [note_leaf],
     markdownLeaves = [note_leaf],
     activeMarkdownView = Some note_leaf,
     activeFile = Some note_file,
     leftSplit = 3,
     rightSplit = 4,
     getFileCache = (\<lambda>f.
       if f = rtl_file then
         Inr (Some \<lparr>cache_frontmatter = Some \<lparr>fm_direction = Some (FmString (js ''rtl''))\<rparr>\<rparr>)
       else if f = odd_file then
         Inr (Some \<lparr>cache_frontmatter = Some \<lparr>fm_direction = Some (FmString (js ''sideways''))\<rparr>\<rparr>)
       else if f = broken_file then Inl HostError
       else Inr None),
     processFrontMatter_fails = (\<lambda>f. False),
     processFrontMatter_log = []\<rparr>"

text \<open>The user sets the editor's direction to left-to-right in the settings tab.\<close>

definition editor_set_ltr :: "IntelligentRtlSettings \<Rightarrow> IntelligentRtlSettings" where
  "editor_set_ltr s = s\<lparr>editor := \<lparr>direction = Ltr\<rparr>\<rparr>"

text \<open>Only the DOM differs between two states.\<close>

definition only_document_changed :: "world \<Rightarrow> world \<Rightarrow> bool" where
  "only_document_changed w w' = (w' = w\<lparr>document := document w'\<rparr>)"

text \<open>The \<open>data-effective-direction\<close> of a node is \<open>auto\<close>.\<close>

definition effective_auto :: "world \<Rightarrow> node \<Rightarrow> bool" where
  "effective_auto w n = (data_effective_direction (document w n) = Some Auto)"

text \<open>Sample notifications: three in one window, and three far apart.\<close>

definition burst :: "(nat \<times> MutationRecord list) list" where
  "burst = [(1000, [target_only 2]), (1100, [target_only 5]), (1499, [target_only 6])]"

definition sparse :: "(nat \<times> MutationRecord list) list" where
  "sparse = [(1000, [target_only 2]), (1501, [target_only 5]), (2002, [target_only 6])]"

text \<open>
  What a pass over the leaves keeps: the host's answers, the settings, the override, which
  nodes are in the document, the presence of the editor observer, and every element of
  \<open>observedEditorElements\<close>.
\<close>

definition kept :: "world \<Rightarrow> world \<Rightarrow> bool" where
  "kept w w' =
     (querySelector w' = querySelector w \<and> allLeaves w' = allLeaves w
      \<and> settings w' = settings w \<and> activeFile w' = activeFile w
      \<and> activeNoteOverride w' = activeNoteOverride w
      \<and> (\<forall>n. in_body (document w' n) = in_body (document w n))
      \<and> set (observedEditorElements w) \<subseteq> set (observedEditorElements w')
      \<and> (editorMutationObserver w \<noteq> None \<longrightarrow> editorMutationObserver w' \<noteq> None))"

text \<open>The user gives the editor another setting in the settings tab.\<close>

definition set_editor_setting :: "UiContainerSettings \<Rightarrow> world \<Rightarrow> world" where
  "set_editor_setting e w = w\<lparr>settings := (settings w)\<lparr>editor := e\<rparr>\<rparr>"

text \<open>
  More of what a pass keeps, and when the step of a pass for a leaf leaves the
  \<open>data-direction\<close> of an element alone or writes the direction \<open>d\<close> there.
\<close>

definition layout_kept :: "world \<Rightarrow> world \<Rightarrow> bool" where
  "layout_kept w w' =
     (querySelectorAll w' = querySelectorAll w \<and> leftSplit w' = leftSplit w
      \<and> rightSplit w' = rightSplit w)"

definition leaf_spares :: "DirectionSetting \<Rightarrow> node \<Rightarrow> world \<Rightarrow> leaf \<Rightarrow> bool" where
  "leaf_spares d el w x =
     ((is_MarkdownView x \<and> querySelector w (containerEl x) ''.cm-content'' = Some el
         \<longrightarrow> editor_leaf_direction w x = d)
      \<and> (\<not> is_MarkdownView x \<and> viewType x = ''canvas''
         \<longrightarrow> (\<forall>c\<in>set (querySelectorAll w (containerEl x) ''.canvas-card'').
                cardContent w c \<noteq> Some el)))"

definition pane_spares :: "node \<Rightarrow> world \<Rightarrow> leaf \<Rightarrow> bool" where
  "pane_spares el w x =
     (viewType x = ''file-explorer'' \<or> viewType x = ''search'' \<or> viewType x = ''tag''
        \<longrightarrow> containerEl x \<noteq> el \<and> (\<forall>sel. querySelector w (containerEl x) sel \<noteq> Some el))"

text \<open>
  The workspace with one note, its editor watched, with a note override and an editor
  setting.
\<close>

definition note_overridden :: "DirectionSetting \<Rightarrow> DirectionSetting \<Rightarrow> world" where
  "note_overridden ov ed = one_note\<lparr>
     settings := DEFAULT_SETTINGS\<lparr>editor := \<lparr>direction = ed\<rparr>\<rparr>,
     editorMutationObserver := Some [2],
     observedEditorElements := [2],
     activeNoteOverride := Some ov\<rparr>"

section \<open>Properties of the regular expressions\<close>

lemma first_some_map_SomeD:
  "first_some (map f xs) = Some y \<Longrightarrow> \<exists>x\<in>set xs. f x = Some y"
proof (induction xs)
  case Nil
  then show ?case by simp
next
  case (Cons a xs)
  then show ?case by (cases "f a") auto
qed

lemma count_while_le: "count_while p hi s \<le> length s"
  using length_takeWhile_le [of p s]
  by (auto simp: count_while_def split: option.splits)

lemma match_here_length:
  "match_here e as s = Some rest \<Longrightarrow> length rest + sum_list (map atom_min as) \<le> length s"
proof (induction as arbitrary: s)
  case Nil
  then show ?case by (simp split: if_splits)
next
  case (Cons a as)
  obtain p lo hi where a: "a = Atom p lo hi" by (cases a)
  from Cons.prems a obtain k where k: "lo \<le> k" "k \<le> count_while p hi s"
    and m: "match_here e as (drop k s) = Some rest"
    by (auto dest!: first_some_map_SomeD)
  from Cons.IH [OF m] have "length rest + sum_list (map atom_min as) \<le> length s - k" by simp
  moreover have "k \<le> length s" using k(2) count_while_le [of p hi s] by simp
  ultimately show ?case using k(1) a by simp
qed

lemma rx_exec_length:
  "rx_exec r pre s = Some (p, rest) \<Longrightarrow>
     length rest + min_length r \<le> length s \<and>
     length p + length rest + min_length r \<le> length pre + length s"
proof (induction s arbitrary: pre)
  case Nil
  then show ?case
    by (auto simp: min_length_def split: option.splits dest: match_here_length)
next
  case (Cons c s)
  show ?case
  proof (cases "match_here (anchor_end r) (atoms r) (c # s)")
    case (Some rest')
    with Cons.prems show ?thesis
      using match_here_length [OF Some] by (simp add: min_length_def)
  next
    case None
    with Cons.prems have "rx_exec r (pre @ [c]) s = Some (p, rest)"
      by (simp split: if_splits)
    from Cons.IH [OF this] show ?thesis by simp
  qed
qed

lemma rx_test_min_length: "rx_test r s \<Longrightarrow> min_length r \<le> length s"
  unfolding rx_test_def using rx_exec_length [of r "[]" s] by fastforce

lemma rx_replace_empty_no_match: "\<not> rx_test r s \<Longrightarrow> rx_replace_empty r s = s"
  by (cases "rx_exec r [] s") (auto simp: rx_test_def rx_replace_empty_def)

lemma rx_replace_empty_length: "length (rx_replace_empty r s) \<le> length s"
  using rx_exec_length [of r "[]" s]
  by (auto simp: rx_replace_empty_def split: option.splits)

lemma rx_replace_empty_shorter:
  "rx_test r s \<Longrightarrow> length (rx_replace_empty r s) + min_length r \<le> length s"
  using rx_exec_length [of r "[]" s]
  by (auto simp: rx_replace_empty_def rx_test_def split: option.splits)

section \<open>The detector never answers right-to-left\<close>

lemma range_rx_single: "\<not> rx_test (range_rx a b) [c]"
  using rx_test_min_length [of "range_rx a b" "[c]"]
  by (auto simp: min_length_def range_rx_def)

lemma isRtlChar_never: "isRtlChar char = False"
proof (cases "char = [] \<or> length char \<noteq> 1")
  case True
  then show ?thesis by (simp add: isRtlChar_def)
next
  case False
  then obtain c where "char = [c]" by (cases char) auto
  then show ?thesis
    by (simp add: isRtlChar_def RTL_RANGES_def HEBREW_RANGES_def ARABIC_RANGES_def
        range_rx_single)
qed

lemma first_strong_ltr: "first_strong s = Some d \<Longrightarrow> d = Ltr"
  by (induction s) (auto simp: isRtlChar_never split: if_splits)

lemma count_chars_rtl: "fst (count_chars u s (r, t)) = r"
  by (induction s arbitrary: t) (auto simp: isRtlChar_never)

lemma majority_ltr: "majority u s = Ltr"
  using count_chars_rtl [of u s 0 0]
  by (auto simp: majority_def split: prod.splits)

lemma getBlockDirection_str_ltr: "getBlockDirection_str u s = Ltr"
  by (auto simp: getBlockDirection_str_def Let_def majority_ltr split: option.splits
      dest: first_strong_ltr)

lemma getBlockDirection_ltr: "getBlockDirection u x = Ltr"
  by (cases x) (simp_all add: getBlockDirection_str_ltr)

text \<open>
  C1 (the code departs from the claim). The claim: a text whose first letter, after the
  heading marker is stripped, is Hebrew is classified right-to-left; in particular the
  Hebrew heading is. The code: the heading marker is stripped and the Hebrew letters are
  what is scanned, but \<open>isRtlChar\<close> rejects the letter shin (U+05E9), and the heading is
  classified left-to-right, whatever the Unicode tables are.
\<close>

theorem hebrew_heading_classified_ltr:
  "strip_prefixes hebrew_heading = [0x5E9, 0x5DC, 0x5D5, 0x5DD, 0x20, 0x5E2, 0x5D5, 0x5DC, 0x5DD]
   \<and> isRtlChar [0x5E9] = False
   \<and> getBlockDirection u (JString hebrew_heading) = Ltr"
proof (intro conjI)
  show "strip_prefixes hebrew_heading
          = [0x5E9, 0x5DC, 0x5D5, 0x5DD, 0x20, 0x5E2, 0x5D5, 0x5DC, 0x5DD]"
    by code_simp
  show "isRtlChar [0x5E9] = False" by (rule isRtlChar_never)
  show "getBlockDirection u (JString hebrew_heading) = Ltr" by (rule getBlockDirection_ltr)
qed

text \<open>
  C2. \<open>isRtlChar\<close> returns false for every string, of any length: a range regex matches
  three characters and \<open>isRtlChar\<close> only lets strings of one character through. So
  neither the first-strong-character scan nor the majority vote ever answers
  right-to-left, and \<open>getBlockDirection\<close> returns \<open>'ltr'\<close> for every argument.
\<close>

theorem getBlockDirection_always_ltr:
  "isRtlChar char = False
   \<and> first_strong s \<noteq> Some Rtl
   \<and> majority u s = Ltr
   \<and> getBlockDirection u x = Ltr"
  using first_strong_ltr [of s Rtl]
  by (auto simp: isRtlChar_never majority_ltr getBlockDirection_ltr)

section \<open>Stripping the markdown prefixes\<close>

lemma foldl_replace_length:
  "length (foldl (\<lambda>t r. rx_replace_empty r t) s rs) \<le> length s"
proof (induction rs arbitrary: s)
  case Nil
  then show ?case by simp
next
  case (Cons r rs)
  have "length (foldl (\<lambda>t r. rx_replace_empty r t) (rx_replace_empty r s) rs)
          \<le> length (rx_replace_empty r s)" by (rule Cons.IH)
  also have "\<dots> \<le> length s" by (rule rx_replace_empty_length)
  finally show ?case by simp
qed

lemma foldl_replace_fixed:
  assumes "\<forall>r\<in>set rs. 0 < min_length r"
  shows "foldl (\<lambda>t r. rx_replace_empty r t) s rs = s \<longleftrightarrow> \<not> list_ex (\<lambda>r. rx_test r s) rs"
  using assms
proof (induction rs)
  case Nil
  then show ?case by simp
next
  case (Cons r rs)
  show ?case
  proof (cases "rx_test r s")
    case True
    have "length (foldl (\<lambda>t r. rx_replace_empty r t) (rx_replace_empty r s) rs)
            \<le> length (rx_replace_empty r s)" by (rule foldl_replace_length)
    moreover have "length (rx_replace_empty r s) < length s"
      using rx_replace_empty_shorter [OF True] Cons.prems by simp
    ultimately have "foldl (\<lambda>t r. rx_replace_empty r t) (rx_replace_empty r s) rs \<noteq> s"
      by auto
    with True show ?thesis by simp
  next
    case False
    with Cons show ?thesis by (simp add: rx_replace_empty_no_match)
  qed
qed

lemma foldl_replace_first:
  assumes "\<forall>r\<in>set rs. 0 < min_length r"
  shows "foldl (\<lambda>t r. rx_replace_empty r t) s rs = strip_first_matching rs s
           \<longleftrightarrow> \<not> later_match rs s"
  using assms
proof (induction rs)
  case Nil
  then show ?case by simp
next
  case (Cons r rs)
  show ?case
  proof (cases "rx_test r s")
    case True
    then show ?thesis
      using foldl_replace_fixed [of rs "rx_replace_empty r s"] Cons.prems by simp
  next
    case False
    with Cons show ?thesis by (simp add: rx_replace_empty_no_match)
  qed
qed

lemma markdownPrefixes_consume: "\<forall>r\<in>set markdownPrefixes. 0 < min_length r"
  by (simp add: markdownPrefixes_def min_length_def TASK_RX_def BULLET_RX_def ORDERED_RX_def
      HEADING_RX_def QUOTE_RX_def)

text \<open>
  C4 (as stated, false). For a task-list marker followed by a bullet-list marker the
  specification's stripping leaves the bullet marker in place, while the code removes it
  too.
\<close>

theorem task_then_bullet_both_stripped:
  "strip_first_matching markdownPrefixes task_then_bullet = js ''- abc''
   \<and> strip_prefixes task_then_bullet = js ''abc''"
  by code_simp

text \<open>
  C4 (amended). Each of the five prefix patterns is applied once, in the order task list,
  bullet list, ordered list, heading, blockquote, to the text the patterns before it have
  left. So the text scanned is the input without its first matching prefix, and nothing
  more, exactly when no pattern later in the list matches what is left after that prefix
  is removed; otherwise the later patterns remove their markers as well.
\<close>

theorem strip_prefixes_first_only_iff:
  "strip_prefixes s = strip_first_matching markdownPrefixes s
     \<longleftrightarrow> \<not> later_match markdownPrefixes s"
  unfolding strip_prefixes_def by (rule foldl_replace_first [OF markdownPrefixes_consume])

theorem strip_prefixes_first_only_iff_witness:
  "\<not> later_match markdownPrefixes hebrew_heading
   \<and> strip_prefixes hebrew_heading = strip_first_matching markdownPrefixes hebrew_heading"
proof -
  have h: "\<not> later_match markdownPrefixes hebrew_heading" by code_simp
  show ?thesis
    by (rule conjI [OF h iffD2 [OF strip_prefixes_first_only_iff h]])
qed

section \<open>What the direction functions leave alone\<close>

lemma odc_refl: "only_document_changed w w"
  by (simp add: only_document_changed_def)

lemma odc_trans:
  "only_document_changed w w' \<Longrightarrow> only_document_changed w' w'' \<Longrightarrow> only_document_changed w w''"
  unfolding only_document_changed_def
  by (metis world.surjective world.update_convs(7))

lemma odc_update_node: "only_document_changed w (update_node el f w)"
  by (simp add: only_document_changed_def update_node_def)

lemma odc_foldl:
  assumes "\<And>w x. only_document_changed w (f w x)"
  shows "only_document_changed w (foldl f w xs)"
proof (induction xs arbitrary: w)
  case Nil
  show ?case by (simp add: odc_refl)
next
  case (Cons x xs)
  show ?case using odc_trans [OF assms Cons.IH] by simp
qed

lemma odc_apply: "only_document_changed w (applyDirectionToElement u e d w)"
  unfolding applyDirectionToElement_def Let_def
  by (auto split: option.splits intro!: odc_refl odc_update_node intro: odc_trans)

lemma odc_reclassify: "only_document_changed w (reclassify_editor u el w)"
  unfolding reclassify_editor_def Let_def
  by (auto split: option.splits prod.splits intro!: odc_refl odc_update_node)

lemma odc_hemi: "only_document_changed w (handleEditorMutationInner u ms w)"
  unfolding handleEditorMutationInner_def
  by (rule odc_foldl) (rule odc_reclassify)

lemma odc_refresh: "only_document_changed w (refreshActiveEditorDirection u w)"
  unfolding refreshActiveEditorDirection_def Let_def
  by (auto split: option.splits intro!: odc_refl odc_apply
      intro: odc_trans [OF odc_apply odc_hemi])

lemma odc_fields:
  assumes "only_document_changed w w'"
  shows "activeFile w' = activeFile w" and "activeNoteOverride w' = activeNoteOverride w"
    and "settings w' = settings w"
  using assms unfolding only_document_changed_def
  by (metis world.select_convs world.surjective world.update_convs(7))+

section \<open>The data-direction attribute\<close>

lemma data_direction_reclassify:
  "data_direction (document (reclassify_editor u el w) n) = data_direction (document w n)"
  by (simp add: reclassify_editor_def update_node_def Let_def split: option.splits)

lemma data_direction_hemi:
  "data_direction (document (handleEditorMutationInner u ms w) n) = data_direction (document w n)"
proof -
  have "data_direction (document (foldl (\<lambda>w el. reclassify_editor u el w) w' xs) n)
          = data_direction (document w' n)" for w' xs
    by (induction xs arbitrary: w') (simp_all add: data_direction_reclassify)
  then show ?thesis by (simp add: handleEditorMutationInner_def)
qed

lemma apply_sets_data_direction:
  "in_body (document w el) \<Longrightarrow>
     data_direction (document (applyDirectionToElement u (Some el) d w) el) = Some d"
  by (simp add: applyDirectionToElement_def update_node_def Let_def)

section \<open>Resolving auto-detect\<close>

text \<open>
  C6. For an element in the document whose setting is auto-detect,
  \<open>applyDirectionToElement\<close> applies, as \<open>data-effective-direction\<close> and as mode class: with
  \<open>enableAdvancedTextDetection\<close> off, \<open>globalDefaultDirection\<close>, or left-to-right when that
  is auto-detect too; with it on, what \<open>getBlockDirection\<close> answers for the element's text.
\<close>

theorem auto_setting_resolution:
  assumes "in_body (document w el)"
  shows "data_effective_direction (document (applyDirectionToElement u (Some el) Auto w) el)
           = Some (if enableAdvancedTextDetection (settings w)
                   then getBlockDirection u (JString (textContent (document w el)))
                   else if globalDefaultDirection (settings w) = Auto then Ltr
                   else globalDefaultDirection (settings w))
     \<and> mode_class (if enableAdvancedTextDetection (settings w)
                   then getBlockDirection u (JString (textContent (document w el)))
                   else if globalDefaultDirection (settings w) = Auto then Ltr
                   else globalDefaultDirection (settings w))
         \<in> classList (document (applyDirectionToElement u (Some el) Auto w) el)"
  using assms by (simp add: applyDirectionToElement_def update_node_def Let_def)

theorem auto_setting_resolution_witness:
  "in_body (document (one_note\<lparr>settings := DEFAULT_SETTINGS\<lparr>enableAdvancedTextDetection := False,
       globalDefaultDirection := Rtl\<rparr>\<rparr>) 2)
   \<and> data_effective_direction (document (applyDirectionToElement sample_ucd (Some 2) Auto
       (one_note\<lparr>settings := DEFAULT_SETTINGS\<lparr>enableAdvancedTextDetection := False,
          globalDefaultDirection := Rtl\<rparr>\<rparr>)) 2) = Some Rtl"
proof -
  let ?w = "one_note\<lparr>settings := DEFAULT_SETTINGS\<lparr>enableAdvancedTextDetection := False,
       globalDefaultDirection := Rtl\<rparr>\<rparr>"
  have b: "in_body (document ?w 2)" by (simp add: one_note_def editor_node_def)
  from auto_setting_resolution [OF b, of sample_ucd] b show ?thesis by simp
qed

section \<open>The status bar cycle\<close>

lemma setNoteDirection_override:
  assumes "activeFile w = Some f" and "extension f = ''md''"
  shows "activeNoteOverride (setNoteDirection u d w) = d
       \<and> activeFile (setNoteDirection u d w) = Some f"
  using assms
  by (simp add: setNoteDirection_def Let_def updateNoteFrontmatterDirection_def
      odc_fields [OF odc_refresh])

lemma statusBarClick_step:
  assumes "activeFile w = Some f" and "extension f = ''md''"
  shows "activeNoteOverride (statusBarClick u w) = nextDirection (activeNoteOverride w)
       \<and> activeFile (statusBarClick u w) = Some f"
  using assms setNoteDirection_override [OF assms]
  by (simp add: statusBarClick_def)

lemma statusBarClick_funpow:
  assumes "activeFile w = Some f" and "extension f = ''md''"
  shows "activeNoteOverride ((statusBarClick u ^^ k) w) = (nextDirection ^^ k) (activeNoteOverride w)
       \<and> activeFile ((statusBarClick u ^^ k) w) = Some f"
proof (induction k)
  case 0
  show ?case using assms by simp
next
  case (Suc k)
  then have "activeFile ((statusBarClick u ^^ k) w) = Some f" by simp
  from statusBarClick_step [OF this assms(2)] Suc show ?case by simp
qed

lemma nextDirection_cycle:
  "nextDirection None = Some Ltr" "nextDirection (Some Ltr) = Some Rtl"
  "nextDirection (Some Rtl) = Some Auto" "nextDirection (Some Auto) = None"
  by (simp_all add: nextDirection_def)

lemma nextDirection_four: "(nextDirection ^^ 4) x = x"
proof (cases x)
  case None
  then show ?thesis by (simp add: numeral_eq_Suc nextDirection_cycle)
next
  case (Some d)
  then show ?thesis by (cases d) (simp_all add: numeral_eq_Suc nextDirection_cycle)
qed

text \<open>
  C7. With a markdown note active, clicking the status bar item cycles the override:
  from none the clicks lead to left-to-right, right-to-left, auto-detect and none again,
  and four clicks from any state lead back to it.
\<close>

theorem status_bar_four_cycle:
  assumes "activeFile w = Some f" and "extension f = ''md''"
  shows "(activeNoteOverride w = None \<longrightarrow>
            activeNoteOverride ((statusBarClick u ^^ 1) w) = Some Ltr
          \<and> activeNoteOverride ((statusBarClick u ^^ 2) w) = Some Rtl
          \<and> activeNoteOverride ((statusBarClick u ^^ 3) w) = Some Auto
          \<and> activeNoteOverride ((statusBarClick u ^^ 4) w) = None)
     \<and> activeNoteOverride ((statusBarClick u ^^ 4) w) = activeNoteOverride w"
proof -
  have k: "activeNoteOverride ((statusBarClick u ^^ k) w)
             = (nextDirection ^^ k) (activeNoteOverride w)" for k
    using statusBarClick_funpow [OF assms] by simp
  show ?thesis
    unfolding k by (simp add: nextDirection_four) (simp add: numeral_eq_Suc nextDirection_cycle)
qed

theorem status_bar_four_cycle_witness:
  "activeFile one_note = Some note_file \<and> extension note_file = ''md''
   \<and> activeNoteOverride one_note = None
   \<and> activeNoteOverride ((statusBarClick sample_ucd ^^ 1) one_note) = Some Ltr
   \<and> activeNoteOverride ((statusBarClick sample_ucd ^^ 2) one_note) = Some Rtl
   \<and> activeNoteOverride ((statusBarClick sample_ucd ^^ 3) one_note) = Some Auto
   \<and> activeNoteOverride ((statusBarClick sample_ucd ^^ 4) one_note) = None"
proof -
  have a: "activeFile one_note = Some note_file" by (simp add: one_note_def)
  have b: "extension note_file = ''md''" by (simp add: note_file_def)
  have c: "activeNoteOverride one_note = None" by (simp add: one_note_def)
  from status_bar_four_cycle [OF a b, of sample_ucd] a b c show ?thesis by blast
qed

section \<open>Reading the override from the frontmatter\<close>

lemma handleFileOpen_override:
  "activeNoteOverride (handleFileOpen u file w)
     = (case read_override w file of Inr ov \<Rightarrow> ov | Inl e \<Rightarrow> None)"
  by (simp add: handleFileOpen_def Let_def odc_fields [OF odc_refresh] split: sum.splits)

text \<open>
  C9. \<open>handleFileOpen\<close> for a markdown file: a frontmatter \<open>direction\<close> of \<open>'ltr'\<close>, \<open>'rtl'\<close> or
  \<open>'auto'\<close> becomes the override; when reading the cache throws, when there is no cache
  entry, no frontmatter or no \<open>direction\<close> key, and when the value is another string or no
  string at all, the override is none. The throw is caught: \<open>handleFileOpen\<close> returns a
  state in every case. (For no file and for a file that is not markdown the override is
  none as well.)
\<close>

theorem handleFileOpen_reads_frontmatter:
  assumes "extension f = ''md''"
  shows "(getFileCache w f = Inr (Some c) \<and> cache_frontmatter c = Some fm \<longrightarrow>
            (fm_direction fm = Some (FmString (js ''ltr''))
               \<longrightarrow> activeNoteOverride (handleFileOpen u (Some f) w) = Some Ltr)
          \<and> (fm_direction fm = Some (FmString (js ''rtl''))
               \<longrightarrow> activeNoteOverride (handleFileOpen u (Some f) w) = Some Rtl)
          \<and> (fm_direction fm = Some (FmString (js ''auto''))
               \<longrightarrow> activeNoteOverride (handleFileOpen u (Some f) w) = Some Auto)
          \<and> (fm_direction fm = None \<or> fm_direction fm = Some FmOther
               \<or> (\<exists>s. fm_direction fm = Some (FmString s)
                        \<and> s \<noteq> js ''ltr'' \<and> s \<noteq> js ''rtl'' \<and> s \<noteq> js ''auto'')
               \<longrightarrow> activeNoteOverride (handleFileOpen u (Some f) w) = None))
     \<and> (getFileCache w f = Inr (Some c) \<and> cache_frontmatter c = None
          \<longrightarrow> activeNoteOverride (handleFileOpen u (Some f) w) = None)
     \<and> (getFileCache w f = Inr None
          \<longrightarrow> activeNoteOverride (handleFileOpen u (Some f) w) = None)
     \<and> (getFileCache w f = Inl e
          \<longrightarrow> read_override w (Some f) = Inl e
            \<and> activeNoteOverride (handleFileOpen u (Some f) w) = None)
     \<and> activeNoteOverride (handleFileOpen u None w) = None"
  using assms
  by (auto simp: handleFileOpen_override read_override_def override_of_value_def js_def)

theorem handleFileOpen_reads_frontmatter_witness:
  "extension rtl_file = ''md'' \<and> extension odd_file = ''md'' \<and> extension broken_file = ''md''
   \<and> extension note_file = ''md''
   \<and> activeNoteOverride (handleFileOpen sample_ucd (Some rtl_file) one_note) = Some Rtl
   \<and> activeNoteOverride (handleFileOpen sample_ucd (Some odd_file) one_note) = None
   \<and> activeNoteOverride (handleFileOpen sample_ucd (Some broken_file) one_note) = None
   \<and> activeNoteOverride (handleFileOpen sample_ucd (Some note_file) one_note) = None"
proof -
  let ?rtl = "\<lparr>fm_direction = Some (FmString (js ''rtl''))\<rparr>"
  let ?odd = "\<lparr>fm_direction = Some (FmString (js ''sideways''))\<rparr>"
  have e: "extension rtl_file = ''md''" "extension odd_file = ''md''"
    "extension broken_file = ''md''" "extension note_file = ''md''"
    by (simp_all add: rtl_file_def odd_file_def broken_file_def note_file_def)
  have r: "getFileCache one_note rtl_file = Inr (Some \<lparr>cache_frontmatter = Some ?rtl\<rparr>)"
    by (simp add: one_note_def)
  have o: "getFileCache one_note odd_file = Inr (Some \<lparr>cache_frontmatter = Some ?odd\<rparr>)"
    by (simp add: one_note_def rtl_file_def odd_file_def)
  have b: "getFileCache one_note broken_file = Inl HostError"
    by (simp add: one_note_def rtl_file_def odd_file_def broken_file_def)
  have n: "getFileCache one_note note_file = Inr None"
    by (simp add: one_note_def rtl_file_def odd_file_def broken_file_def note_file_def)
  have s: "js ''sideways'' \<noteq> js ''ltr'' \<and> js ''sideways'' \<noteq> js ''rtl''
           \<and> js ''sideways'' \<noteq> js ''auto''"
    by (simp add: js_def)
  from handleFileOpen_reads_frontmatter [OF e(1), of one_note "\<lparr>cache_frontmatter = Some ?rtl\<rparr>"
      ?rtl sample_ucd] r
  have 1: "activeNoteOverride (handleFileOpen sample_ucd (Some rtl_file) one_note) = Some Rtl"
    by simp
  from handleFileOpen_reads_frontmatter [OF e(2), of one_note "\<lparr>cache_frontmatter = Some ?odd\<rparr>"
      ?odd sample_ucd] o s
  have 2: "activeNoteOverride (handleFileOpen sample_ucd (Some odd_file) one_note) = None"
    by simp
  from handleFileOpen_reads_frontmatter [OF e(3), of one_note _ _ _ HostError] b
  have 3: "activeNoteOverride (handleFileOpen sample_ucd (Some broken_file) one_note) = None"
    by simp
  from handleFileOpen_reads_frontmatter [OF e(4), of one_note] n
  have 4: "activeNoteOverride (handleFileOpen sample_ucd (Some note_file) one_note) = None"
    by simp
  from e 1 2 3 4 show ?thesis by simp
qed

section \<open>The effective direction written is never auto\<close>

lemma first_strong_concrete: "first_strong s = Some d \<Longrightarrow> d \<noteq> Auto"
  by (induction s) (auto split: if_splits)

lemma majority_concrete: "majority u s \<noteq> Auto"
  by (simp add: majority_def split: prod.splits)

lemma getBlockDirection_str_concrete: "getBlockDirection_str u s \<noteq> Auto"
  by (auto simp: getBlockDirection_str_def Let_def majority_concrete
      split: option.splits dest: first_strong_concrete)

lemma getBlockDirection_concrete: "getBlockDirection u x \<noteq> Auto"
  by (cases x) (simp_all add: getBlockDirection_str_concrete)

lemma apply_no_new_auto:
  "effective_auto (applyDirectionToElement u e d w) n \<Longrightarrow> effective_auto w n"
  by (auto simp: effective_auto_def applyDirectionToElement_def update_node_def Let_def
      getBlockDirection_str_concrete split: option.splits if_splits)

lemma apply_writes_concrete:
  "in_body (document w el) \<Longrightarrow>
     data_effective_direction (document (applyDirectionToElement u (Some el) d w) el)
       \<in> {Some Ltr, Some Rtl}"
  using getBlockDirection_concrete [of u "JString (textContent (document w el))"]
  by (cases d; cases "getBlockDirection u (JString (textContent (document w el)))";
      cases "globalDefaultDirection (settings w)")
     (simp_all add: applyDirectionToElement_def update_node_def Let_def)

lemma reclassify_no_new_auto:
  "effective_auto (reclassify_editor u el w) n \<Longrightarrow> effective_auto w n"
  by (auto simp: effective_auto_def reclassify_editor_def update_node_def Let_def
      getBlockDirection_str_concrete split: option.splits if_splits)

lemma foldl_no_new_auto:
  assumes "\<And>w x. effective_auto (f w x) n \<Longrightarrow> effective_auto w n"
  shows "effective_auto (foldl f w xs) n \<Longrightarrow> effective_auto w n"
proof (induction xs arbitrary: w)
  case Nil
  then show ?case by simp
next
  case (Cons x xs)
  from Cons.prems have "effective_auto (foldl f (f w x) xs) n" by simp
  then have "effective_auto (f w x) n" by (rule Cons.IH)
  then show ?case by (rule assms)
qed

lemma hemi_no_new_auto:
  "effective_auto (handleEditorMutationInner u ms w) n \<Longrightarrow> effective_auto w n"
  unfolding handleEditorMutationInner_def
  by (erule foldl_no_new_auto [rotated]) (rule reclassify_no_new_auto)

lemma put_effective_auto [simp]:
  "effective_auto (put_observer k obs w) n = effective_auto w n"
  "effective_auto (put_observed k xs w) n = effective_auto w n"
  by (simp_all add: effective_auto_def put_observer_def put_observed_def split: watcher.splits)

lemma manageObserver_no_new_auto:
  "effective_auto (manageObserver u k e b name w) n \<Longrightarrow> effective_auto w n"
  by (auto simp: manageObserver_def Let_def split: option.splits if_splits
      dest!: hemi_no_new_auto)

lemma cleanup_effective_auto:
  "effective_auto (cleanupOldObservers k cur w) n = effective_auto w n"
  by (simp add: cleanupOldObservers_def Let_def split: option.splits)

lemma cards_no_new_auto:
  "effective_auto (foldl (\<lambda>w cardEl. applyDirectionToElement u (cardContent w cardEl)
                  (direction (canvasCard (settings w))) w) w xs) n \<Longrightarrow> effective_auto w n"
  by (erule foldl_no_new_auto [rotated]) (rule apply_no_new_auto)

lemma apply_leaf_no_new_auto:
  assumes "effective_auto (fst (apply_leaf u (w, ce, cc) l)) n"
  shows "effective_auto w n"
proof (cases "is_MarkdownView l")
  case True
  show ?thesis
  proof (cases "querySelector w (containerEl l) ''.cm-content''")
    case None
    with True assms show ?thesis by (simp add: apply_leaf_def)
  next
    case (Some el)
    with True assms show ?thesis
      by (auto simp: apply_leaf_def Let_def
          dest!: manageObserver_no_new_auto apply_no_new_auto)
  qed
next
  case False
  show ?thesis
  proof (cases "viewType l = ''canvas''")
    case canvas: True
    show ?thesis
    proof (cases "querySelector w (containerEl l) ''.canvas-nodes''")
      case None
      with False canvas assms show ?thesis
        by (auto simp: apply_leaf_def Let_def dest!: cards_no_new_auto)
    next
      case (Some cn)
      with False canvas assms show ?thesis
        by (auto simp: apply_leaf_def Let_def
            dest!: cards_no_new_auto manageObserver_no_new_auto)
    qed
  next
    case other: False
    with False assms show ?thesis by (simp add: apply_leaf_def)
  qed
qed

lemma apply_leaves_no_new_auto:
  "effective_auto (fst (foldl (apply_leaf u) st ls)) n \<Longrightarrow> effective_auto (fst st) n"
proof (induction ls arbitrary: st)
  case Nil
  then show ?case by simp
next
  case (Cons l ls)
  obtain w ce cc where st: "st = (w, ce, cc)" by (cases st)
  from Cons.prems have "effective_auto (fst (foldl (apply_leaf u) (apply_leaf u st l) ls)) n"
    by simp
  then have "effective_auto (fst (apply_leaf u st l)) n" by (rule Cons.IH)
  then show ?case unfolding st using apply_leaf_no_new_auto by simp
qed

lemma apply_pane_no_new_auto:
  "effective_auto (apply_pane u w l) n \<Longrightarrow> effective_auto w n"
  by (auto simp: apply_pane_def split: if_splits dest: apply_no_new_auto)

lemma applyAllUiSettings_no_new_auto:
  assumes "effective_auto (applyAllUiSettings u w) n"
  shows "effective_auto w n"
proof -
  obtain w1 ce cc where f: "foldl (apply_leaf u) (w, [], []) (allLeaves w) = (w1, ce, cc)"
    by (cases "foldl (apply_leaf u) (w, [], []) (allLeaves w)")
  define w2 where "w2 = cleanupOldObservers CanvasWatcher cc (cleanupOldObservers EditorWatcher ce w1)"
  define w3 where "w3 = applyDirectionToElement u (Some (leftSplit w2))
                          (direction (leftSidebar (settings w2))) w2"
  define w4 where "w4 = applyDirectionToElement u (Some (rightSplit w3))
                          (direction (rightSidebar (settings w3))) w3"
  have "applyAllUiSettings u w = foldl (apply_pane u) w4 (allLeaves w4)"
    by (simp add: applyAllUiSettings_def f Let_def w2_def w3_def w4_def)
  with assms have "effective_auto (foldl (apply_pane u) w4 (allLeaves w4)) n" by simp
  then have "effective_auto w4 n"
    by (rule foldl_no_new_auto [rotated]) (rule apply_pane_no_new_auto)
  then have "effective_auto w3 n" unfolding w4_def by (rule apply_no_new_auto)
  then have "effective_auto w2 n" unfolding w3_def by (rule apply_no_new_auto)
  then have "effective_auto w1 n" unfolding w2_def by (simp add: cleanup_effective_auto)
  then have "effective_auto (fst (foldl (apply_leaf u) (w, [], []) (allLeaves w))) n"
    by (simp add: f)
  then show ?thesis using apply_leaves_no_new_auto [of u "(w, [], [])" "allLeaves w" n] by simp
qed

lemma refresh_no_new_auto:
  "effective_auto (refreshActiveEditorDirection u w) n \<Longrightarrow> effective_auto w n"
  by (auto simp: refreshActiveEditorDirection_def Let_def split: option.splits if_splits
      dest!: hemi_no_new_auto apply_no_new_auto)

lemma override_effective_auto [simp]:
  "effective_auto (w\<lparr>activeNoteOverride := ov\<rparr>) n = effective_auto w n"
  "effective_auto (w\<lparr>settings := s\<rparr>) n = effective_auto w n"
  "effective_auto (w\<lparr>processFrontMatter_log := lg\<rparr>) n = effective_auto w n"
  by (simp_all add: effective_auto_def)

lemma handleFileOpen_no_new_auto:
  "effective_auto (handleFileOpen u file w) n \<Longrightarrow> effective_auto w n"
  by (auto simp: handleFileOpen_def Let_def split: sum.splits dest!: refresh_no_new_auto)

lemma clear_no_new_auto:
  "effective_auto (clearActiveNoteOverrideAndRefreshEditor u w) n \<Longrightarrow> effective_auto w n"
  by (auto simp: clearActiveNoteOverrideAndRefreshEditor_def Let_def split: if_splits
      dest!: refresh_no_new_auto)

lemma setNoteDirection_no_new_auto:
  "effective_auto (setNoteDirection u d w) n \<Longrightarrow> effective_auto w n"
  by (auto simp: setNoteDirection_def updateNoteFrontmatterDirection_def Let_def
      split: option.splits if_splits dest!: refresh_no_new_auto)

lemma statusBarClick_no_new_auto:
  "effective_auto (statusBarClick u w) n \<Longrightarrow> effective_auto w n"
  by (auto simp: statusBarClick_def split: option.splits if_splits
      dest!: setNoteDirection_no_new_auto)

lemma handleCanvasMutation_no_new_auto:
  "effective_auto (handleCanvasMutation u ms w) n \<Longrightarrow> effective_auto w n"
proof -
  have added: "effective_auto (foldl (apply_added_node u) w' xs) n \<Longrightarrow> effective_auto w' n"
    for w' xs
    by (erule foldl_no_new_auto [rotated])
       (auto simp: apply_added_node_def split: if_splits dest: apply_no_new_auto)
  show "effective_auto (handleCanvasMutation u ms w) n \<Longrightarrow> effective_auto w n"
    unfolding handleCanvasMutation_def
    by (erule foldl_no_new_auto [rotated]) (auto split: if_splits dest: added)
qed

text \<open>
  C10. The value \<open>applyDirectionToElement\<close> writes as \<open>data-effective-direction\<close> of an
  element in the document is \<open>ltr\<close> or \<open>rtl\<close>; and no operation of the plugin makes the
  \<open>data-effective-direction\<close> of any node \<open>auto\<close>: a node whose attribute is not \<open>auto\<close>
  before the operation does not have \<open>auto\<close> after it.
\<close>

theorem effective_direction_never_auto:
  assumes "data_effective_direction (document w n) \<noteq> Some Auto"
  shows "(in_body (document w el) \<longrightarrow>
            data_effective_direction (document (applyDirectionToElement u (Some el) d w) el)
              \<in> {Some Ltr, Some Rtl})
     \<and> data_effective_direction (document (applyDirectionToElement u e d w) n) \<noteq> Some Auto
     \<and> data_effective_direction (document (handleEditorMutationInner u ms w) n) \<noteq> Some Auto
     \<and> data_effective_direction (document (handleCanvasMutation u ms w) n) \<noteq> Some Auto
     \<and> data_effective_direction (document (manageObserver u k e b name w) n) \<noteq> Some Auto
     \<and> data_effective_direction (document (cleanupOldObservers k cur w) n) \<noteq> Some Auto
     \<and> data_effective_direction (document (applyAllUiSettings u w) n) \<noteq> Some Auto
     \<and> data_effective_direction (document (saveSettings u s w) n) \<noteq> Some Auto
     \<and> data_effective_direction (document (refreshActiveEditorDirection u w) n) \<noteq> Some Auto
     \<and> data_effective_direction (document (handleFileOpen u file w) n) \<noteq> Some Auto
     \<and> data_effective_direction (document (clearActiveNoteOverrideAndRefreshEditor u w) n)
         \<noteq> Some Auto
     \<and> data_effective_direction (document (setNoteDirection u ov w) n) \<noteq> Some Auto
     \<and> data_effective_direction (document (statusBarClick u w) n) \<noteq> Some Auto"
proof -
  have a: "\<not> effective_auto w n" using assms by (simp add: effective_auto_def)
  then have s: "\<not> effective_auto (w\<lparr>settings := s\<rparr>) n" by simp
  have 1: "\<not> effective_auto (applyDirectionToElement u e d w) n"
    using a apply_no_new_auto by blast
  have 2: "\<not> effective_auto (handleEditorMutationInner u ms w) n"
    using a hemi_no_new_auto by blast
  have 3: "\<not> effective_auto (handleCanvasMutation u ms w) n"
    using a handleCanvasMutation_no_new_auto by blast
  have 4: "\<not> effective_auto (manageObserver u k e b name w) n"
    using a manageObserver_no_new_auto by blast
  have 5: "\<not> effective_auto (cleanupOldObservers k cur w) n"
    using a by (simp add: cleanup_effective_auto)
  have 6: "\<not> effective_auto (applyAllUiSettings u w) n"
    using a applyAllUiSettings_no_new_auto by blast
  have 7: "\<not> effective_auto (saveSettings u s w) n"
    unfolding saveSettings_def using s applyAllUiSettings_no_new_auto by blast
  have 8: "\<not> effective_auto (refreshActiveEditorDirection u w) n"
    using a refresh_no_new_auto by blast
  have 9: "\<not> effective_auto (handleFileOpen u file w) n"
    using a handleFileOpen_no_new_auto by blast
  have 10: "\<not> effective_auto (clearActiveNoteOverrideAndRefreshEditor u w) n"
    using a clear_no_new_auto by blast
  have 11: "\<not> effective_auto (setNoteDirection u ov w) n"
    using a setNoteDirection_no_new_auto by blast
  have 12: "\<not> effective_auto (statusBarClick u w) n"
    using a statusBarClick_no_new_auto by blast
  from 1 2 3 4 5 6 7 8 9 10 11 12 show ?thesis
    using apply_writes_concrete [of w el u d] unfolding effective_auto_def by blast
qed

theorem effective_direction_never_auto_witness:
  "data_effective_direction (document one_note 2) \<noteq> Some Auto
   \<and> in_body (document one_note 2)
   \<and> data_effective_direction (document (applyDirectionToElement sample_ucd (Some 2) Auto one_note) 2)
       \<in> {Some Ltr, Some Rtl}
   \<and> data_effective_direction (document (applyAllUiSettings sample_ucd one_note) 2) \<noteq> Some Auto
   \<and> data_effective_direction (document (setNoteDirection sample_ucd (Some Auto) one_note) 2)
       \<noteq> Some Auto"
proof -
  have a: "data_effective_direction (document one_note 2) \<noteq> Some Auto"
    by (simp add: one_note_def editor_node_def)
  have b: "in_body (document one_note 2)" by (simp add: one_note_def editor_node_def)
  from effective_direction_never_auto [OF a, of 2 sample_ucd Auto _ _ _ _ _ _ _ _ "Some Auto"] a b
  show ?thesis by blast
qed

section \<open>Watchers after a settings change\<close>

lemma kept_refl: "kept w w"
  by (simp add: kept_def)

lemma kept_trans: "kept w w' \<Longrightarrow> kept w' w'' \<Longrightarrow> kept w w''"
  unfolding kept_def by (intro conjI; (elim conjE)?; simp; blast?)

lemma editor_leaf_direction_cong:
  "settings w' = settings w \<Longrightarrow> activeFile w' = activeFile w \<Longrightarrow>
     activeNoteOverride w' = activeNoteOverride w \<Longrightarrow>
     editor_leaf_direction w' l = editor_leaf_direction w l"
  by (simp add: editor_leaf_direction_def split: option.splits)

lemma kept_direction: "kept w w' \<Longrightarrow> editor_leaf_direction w' l = editor_leaf_direction w l"
  by (simp add: kept_def editor_leaf_direction_def split: option.splits)

lemma kept_foldl:
  assumes "\<And>w x. kept w (f w x)"
  shows "kept w (foldl f w xs)"
proof (induction xs arbitrary: w)
  case Nil
  show ?case by (simp add: kept_refl)
next
  case (Cons x xs)
  show ?case using kept_trans [OF assms Cons.IH] by simp
qed

lemma kept_apply: "kept w (applyDirectionToElement u e d w)"
proof (cases e)
  case None
  then show ?thesis by (simp add: applyDirectionToElement_def kept_refl)
next
  case (Some el)
  then show ?thesis
    by (simp add: kept_def applyDirectionToElement_def update_node_def Let_def)
qed

lemma kept_reclassify: "kept w (reclassify_editor u el w)"
  by (simp add: kept_def reclassify_editor_def update_node_def Let_def
      split: option.splits prod.splits)

lemma kept_hemi: "kept w (handleEditorMutationInner u ms w)"
  unfolding handleEditorMutationInner_def
  by (rule kept_foldl) (rule kept_reclassify)

lemma kept_observe:
  "get_observer k w = Some targets \<Longrightarrow>
     kept w (put_observed k (set_add el (get_observed k (put_observer k (Some ts) w)))
               (put_observer k (Some ts) w))"
  by (cases k)
     (auto simp: kept_def put_observed_def put_observer_def get_observed_def get_observer_def
        set_add_def)

lemma kept_manage: "kept w (manageObserver u k e b name w)"
proof (cases "get_observer k w")
  case None
  then show ?thesis by (simp add: manageObserver_def kept_refl)
next
  case (Some targets)
  show ?thesis
  proof (cases e)
    case None
    with Some show ?thesis by (simp add: manageObserver_def kept_refl)
  next
    case el: (Some el)
    show ?thesis
      using Some el kept_observe [OF Some, of el "set_add el targets"]
        kept_trans [OF kept_observe [OF Some, of el "set_add el targets"] kept_hemi]
      by (simp add: manageObserver_def Let_def kept_refl)
  qed
qed

lemma kept_cards:
  "kept w (foldl (\<lambda>w cardEl. applyDirectionToElement u (cardContent w cardEl)
                  (direction (canvasCard (settings w))) w) w xs)"
  by (rule kept_foldl) (rule kept_apply)

lemma apply_leaf_markdown:
  assumes "is_MarkdownView l" and "querySelector w (containerEl l) ''.cm-content'' = Some el"
  shows "apply_leaf u (w, ce, cc) l =
     (manageObserver u EditorWatcher (Some el)
        (editor_leaf_direction w l = Auto \<and> enableAdvancedTextDetection (settings w))
        (''editor-'' @ leaf_id l)
        (applyDirectionToElement u (Some el) (editor_leaf_direction w l) w),
      set_add el ce, cc)"
  using assms kept_apply [of w u "Some el" "editor_leaf_direction w l"]
  by (simp add: apply_leaf_def Let_def kept_def)

lemma apply_leaf_kept: "kept w (fst (apply_leaf u (w, ce, cc) l))"
proof (cases "is_MarkdownView l")
  case True
  show ?thesis
  proof (cases "querySelector w (containerEl l) ''.cm-content''")
    case None
    with True show ?thesis by (simp add: apply_leaf_def kept_refl)
  next
    case (Some el)
    show ?thesis
      unfolding apply_leaf_markdown [OF True Some]
      using kept_trans [OF kept_apply kept_manage] by simp
  qed
next
  case False
  show ?thesis
  proof (cases "viewType l = ''canvas''")
    case canvas: True
    show ?thesis
    proof (cases "querySelector w (containerEl l) ''.canvas-nodes''")
      case None
      with False canvas show ?thesis
        by (simp add: apply_leaf_def Let_def kept_cards)
    next
      case (Some cn)
      with False canvas show ?thesis
        using kept_trans [OF kept_manage kept_cards]
        by (simp add: apply_leaf_def Let_def)
    qed
  next
    case other: False
    with False show ?thesis by (simp add: apply_leaf_def kept_refl)
  qed
qed

lemma apply_leaf_current:
  "set ce \<subseteq> set (fst (snd (apply_leaf u (w, ce, cc) l)))"
  by (auto simp: apply_leaf_def Let_def set_add_def split: option.splits prod.splits)

lemma manage_watches:
  assumes "editorMutationObserver w \<noteq> None"
  shows "el \<in> set (observedEditorElements
           (manageObserver u EditorWatcher (Some el) True name w))"
proof -
  from assms obtain targets where t: "get_observer EditorWatcher w = Some targets"
    by (auto simp: get_observer_def)
  show ?thesis
  proof (cases "el \<in> set (observedEditorElements w)")
    case True
    with t show ?thesis by (simp add: manageObserver_def get_observed_def)
  next
    case False
    let ?w = "put_observed EditorWatcher
                (set_add el (get_observed EditorWatcher (put_observer EditorWatcher
                   (Some (set_add el targets)) w)))
                (put_observer EditorWatcher (Some (set_add el targets)) w)"
    have "el \<in> set (observedEditorElements ?w)"
      by (simp add: put_observed_def put_observer_def get_observed_def set_add_def)
    moreover have "kept ?w (handleEditorMutationInner u ms ?w)" for ms by (rule kept_hemi)
    ultimately have "el \<in> set (observedEditorElements (handleEditorMutationInner u ms ?w))"
      for ms unfolding kept_def by blast
    moreover have "el \<in> set (observedEditorElements ?w)" by fact
    ultimately show ?thesis
      using t False by (simp add: manageObserver_def Let_def get_observed_def)
  qed
qed

lemma leaves_kept:
  "kept (fst st) (fst (foldl (apply_leaf u) st ls))"
proof (induction ls arbitrary: st)
  case Nil
  show ?case by (simp add: kept_refl)
next
  case (Cons l ls)
  obtain w ce cc where st: "st = (w, ce, cc)" by (cases st)
  have "kept (fst st) (fst (apply_leaf u st l))" unfolding st using apply_leaf_kept by simp
  from kept_trans [OF this Cons.IH] show ?case by simp
qed

lemma leaves_current_mono:
  "set (fst (snd st)) \<subseteq> set (fst (snd (foldl (apply_leaf u) st ls)))"
proof (induction ls arbitrary: st)
  case Nil
  show ?case by simp
next
  case (Cons l ls)
  obtain w ce cc where st: "st = (w, ce, cc)" by (cases st)
  have "set (fst (snd st)) \<subseteq> set (fst (snd (apply_leaf u st l)))"
    unfolding st using apply_leaf_current by simp
  with Cons.IH [of "apply_leaf u st l"] show ?case by auto
qed

text \<open>Every editor content element of the workspace ends up in the set handed to the cleanup.\<close>

lemma leaves_current:
  assumes "l \<in> set ls" and "is_MarkdownView l"
    and "querySelector (fst st) (containerEl l) ''.cm-content'' = Some el"
  shows "el \<in> set (fst (snd (foldl (apply_leaf u) st ls)))"
  using assms
proof (induction ls arbitrary: st)
  case Nil
  then show ?case by simp
next
  case (Cons x ls)
  obtain w ce cc where st: "st = (w, ce, cc)" by (cases st)
  show ?case
  proof (cases "x = l")
    case True
    have "el \<in> set (fst (snd (apply_leaf u st l)))"
      using Cons.prems st by (simp add: apply_leaf_markdown set_add_def)
    with leaves_current_mono [of "apply_leaf u st l" u ls] True show ?thesis by auto
  next
    case False
    with Cons.prems have l: "l \<in> set ls" by simp
    have "kept (fst st) (fst (apply_leaf u st x))" unfolding st using apply_leaf_kept by simp
    with Cons.prems(3) have "querySelector (fst (apply_leaf u st x)) (containerEl l) ''.cm-content''
                               = Some el"
      by (simp add: kept_def)
    from Cons.IH [OF l Cons.prems(2) this] show ?thesis by simp
  qed
qed

text \<open>A leaf whose editor resolves to auto-detect, with detection on, gets watched.\<close>

lemma leaves_watch:
  assumes "l \<in> set ls" and "is_MarkdownView l"
    and "querySelector (fst st) (containerEl l) ''.cm-content'' = Some el"
    and "editor_leaf_direction (fst st) l = Auto"
    and "enableAdvancedTextDetection (settings (fst st))"
    and "editorMutationObserver (fst st) \<noteq> None"
  shows "el \<in> set (observedEditorElements (fst (foldl (apply_leaf u) st ls)))"
  using assms
proof (induction ls arbitrary: st)
  case Nil
  then show ?case by simp
next
  case (Cons x ls)
  obtain w ce cc where st: "st = (w, ce, cc)" by (cases st)
  show ?case
  proof (cases "x = l")
    case True
    let ?a = "applyDirectionToElement u (Some el) Auto w"
    have ka: "kept w ?a" by (rule kept_apply)
    then have "editorMutationObserver ?a \<noteq> None"
      using Cons.prems(6) st by (simp add: kept_def)
    then have "el \<in> set (observedEditorElements
                 (manageObserver u EditorWatcher (Some el) True (''editor-'' @ leaf_id l) ?a))"
      by (rule manage_watches)
    then have "el \<in> set (observedEditorElements (fst (apply_leaf u st l)))"
      using Cons.prems st by (simp add: apply_leaf_markdown)
    with leaves_kept [of "apply_leaf u st l" u ls] True show ?thesis
      by (auto simp: kept_def)
  next
    case False
    with Cons.prems have l: "l \<in> set ls" by simp
    have k: "kept (fst st) (fst (apply_leaf u st x))"
      unfolding st using apply_leaf_kept by simp
    with Cons.prems kept_direction [OF k, of l] have
      "querySelector (fst (apply_leaf u st x)) (containerEl l) ''.cm-content'' = Some el"
      "editor_leaf_direction (fst (apply_leaf u st x)) l = Auto"
      "enableAdvancedTextDetection (settings (fst (apply_leaf u st x)))"
      "editorMutationObserver (fst (apply_leaf u st x)) \<noteq> None"
      by (simp_all add: kept_def)
    from Cons.IH [OF l Cons.prems(2) this] show ?thesis by simp
  qed
qed

lemma cleanup_editor:
  "querySelector (cleanupOldObservers k cur w) = querySelector w"
  "allLeaves (cleanupOldObservers k cur w) = allLeaves w"
  "settings (cleanupOldObservers k cur w) = settings w"
  "activeFile (cleanupOldObservers k cur w) = activeFile w"
  "activeNoteOverride (cleanupOldObservers k cur w) = activeNoteOverride w"
  "document (cleanupOldObservers k cur w) = document w"
  "editorMutationObserver w \<noteq> None \<Longrightarrow> editorMutationObserver (cleanupOldObservers k cur w) \<noteq> None"
  "observedEditorElements (cleanupOldObservers CanvasWatcher cur w) = observedEditorElements w"
  "el \<in> set (observedEditorElements w) \<Longrightarrow> in_body (document w el) \<Longrightarrow> el \<in> set cur \<Longrightarrow>
     el \<in> set (observedEditorElements (cleanupOldObservers EditorWatcher cur w))"
  by (cases k; simp add: cleanupOldObservers_def Let_def get_observer_def get_observed_def
      put_observer_def put_observed_def split: option.splits)+

lemma kept_pane: "kept w (apply_pane u w l)"
  by (simp add: apply_pane_def kept_apply kept_refl)

text \<open>
  What \<open>applyAllUiSettings\<close> does to the editor watchers, in any workspace: the content
  element of a markdown leaf that is in the document and is watched stays watched,
  whatever its setting is now; and it becomes watched when its setting resolves to
  auto-detect with detection on.
\<close>

lemma applyAllUiSettings_watchers:
  assumes l: "l \<in> set (allLeaves w)" "is_MarkdownView l"
    and q: "querySelector w (containerEl l) ''.cm-content'' = Some el"
    and b: "in_body (document w el)"
    and o: "el \<in> set (observedEditorElements w)
            \<or> (editor_leaf_direction w l = Auto \<and> enableAdvancedTextDetection (settings w)
                 \<and> editorMutationObserver w \<noteq> None)"
  shows "el \<in> set (observedEditorElements (applyAllUiSettings u w))"
proof -
  obtain w1 ce cc where f: "foldl (apply_leaf u) (w, [], []) (allLeaves w) = (w1, ce, cc)"
    by (cases "foldl (apply_leaf u) (w, [], []) (allLeaves w)")
  have k1: "kept w w1" using leaves_kept [of "(w, [], [])" u "allLeaves w"] f by simp
  have c1: "el \<in> set ce" using leaves_current [of l "allLeaves w" "(w, [], [])" el u] l q f by simp
  have o1: "el \<in> set (observedEditorElements w1)"
  proof -
    from o show ?thesis
    proof
      assume "el \<in> set (observedEditorElements w)"
      with k1 show ?thesis by (auto simp: kept_def)
    next
      assume "editor_leaf_direction w l = Auto \<and> enableAdvancedTextDetection (settings w)
                 \<and> editorMutationObserver w \<noteq> None"
      with leaves_watch [of l "allLeaves w" "(w, [], [])" el u] l q f show ?thesis by simp
    qed
  qed
  have b1: "in_body (document w1 el)" using k1 b by (simp add: kept_def)
  define w2 where "w2 = cleanupOldObservers CanvasWatcher cc (cleanupOldObservers EditorWatcher ce w1)"
  define w3 where "w3 = applyDirectionToElement u (Some (leftSplit w2))
                          (direction (leftSidebar (settings w2))) w2"
  define w4 where "w4 = applyDirectionToElement u (Some (rightSplit w3))
                          (direction (rightSidebar (settings w3))) w3"
  have r: "applyAllUiSettings u w = foldl (apply_pane u) w4 (allLeaves w4)"
    by (simp add: applyAllUiSettings_def f Let_def w2_def w3_def w4_def)
  have o2: "el \<in> set (observedEditorElements w2)"
    unfolding w2_def using o1 b1 c1 by (simp add: cleanup_editor)
  have "kept w2 w3" unfolding w3_def by (rule kept_apply)
  moreover have "kept w3 w4" unfolding w4_def by (rule kept_apply)
  moreover have "kept w4 (foldl (apply_pane u) w4 (allLeaves w4))"
    by (rule kept_foldl) (rule kept_pane)
  ultimately have "kept w2 (applyAllUiSettings u w)"
    unfolding r by (blast intro: kept_trans)
  with o2 show ?thesis by (auto simp: kept_def)
qed

lemma applyAllUiSettings_host:
  "querySelector (applyAllUiSettings u w) = querySelector w
   \<and> allLeaves (applyAllUiSettings u w) = allLeaves w
   \<and> settings (applyAllUiSettings u w) = settings w
   \<and> activeFile (applyAllUiSettings u w) = activeFile w
   \<and> activeNoteOverride (applyAllUiSettings u w) = activeNoteOverride w
   \<and> in_body (document (applyAllUiSettings u w) n) = in_body (document w n)"
proof -
  obtain w1 ce cc where f: "foldl (apply_leaf u) (w, [], []) (allLeaves w) = (w1, ce, cc)"
    by (cases "foldl (apply_leaf u) (w, [], []) (allLeaves w)")
  have k1: "kept w w1" using leaves_kept [of "(w, [], [])" u "allLeaves w"] f by simp
  define w2 where "w2 = cleanupOldObservers CanvasWatcher cc (cleanupOldObservers EditorWatcher ce w1)"
  define w3 where "w3 = applyDirectionToElement u (Some (leftSplit w2))
                          (direction (leftSidebar (settings w2))) w2"
  define w4 where "w4 = applyDirectionToElement u (Some (rightSplit w3))
                          (direction (rightSidebar (settings w3))) w3"
  have r: "applyAllUiSettings u w = foldl (apply_pane u) w4 (allLeaves w4)"
    by (simp add: applyAllUiSettings_def f Let_def w2_def w3_def w4_def)
  have "kept w2 w3" unfolding w3_def by (rule kept_apply)
  moreover have "kept w3 w4" unfolding w4_def by (rule kept_apply)
  moreover have "kept w4 (foldl (apply_pane u) w4 (allLeaves w4))"
    by (rule kept_foldl) (rule kept_pane)
  ultimately have k2: "kept w2 (applyAllUiSettings u w)"
    unfolding r by (blast intro: kept_trans)
  have c: "querySelector w2 = querySelector w1" "allLeaves w2 = allLeaves w1"
    "settings w2 = settings w1" "activeFile w2 = activeFile w1"
    "activeNoteOverride w2 = activeNoteOverride w1" "document w2 = document w1"
    unfolding w2_def by (simp_all add: cleanup_editor)
  from k1 k2 c show ?thesis unfolding kept_def by simp
qed

text \<open>
  C3 (the code departs from the claim). In the workspace with one note the editor is set
  to auto-detect and detection is on: a pass of \<open>applyAllUiSettings\<close> starts watching the
  editor's content element, node 2. The user then sets the editor to left-to-right, and
  \<open>saveSettings\<close> runs a full pass. The element is still in the document and the
  direction resolved for its leaf is now left-to-right, but it is still in
  \<open>observedEditorElements\<close>: \<open>manageObserver\<close> leaves the removal to
  \<open>cleanupOldObservers\<close>, which is handed every editor element of the workspace, watched
  or not.
\<close>

theorem watcher_kept_after_editor_set_ltr:
  "2 \<in> set (observedEditorElements (applyAllUiSettings u one_note))
   \<and> editor_leaf_direction
        (saveSettings u (editor_set_ltr (settings (applyAllUiSettings u one_note)))
           (applyAllUiSettings u one_note)) note_leaf = Ltr
   \<and> in_body (document
        (saveSettings u (editor_set_ltr (settings (applyAllUiSettings u one_note)))
           (applyAllUiSettings u one_note)) 2)
   \<and> 2 \<in> set (observedEditorElements
        (saveSettings u (editor_set_ltr (settings (applyAllUiSettings u one_note)))
           (applyAllUiSettings u one_note)))"
proof -
  define w1 where "w1 = applyAllUiSettings u one_note"
  define w1' where "w1' = w1\<lparr>settings := editor_set_ltr (settings w1)\<rparr>"
  have l: "note_leaf \<in> set (allLeaves one_note)" "is_MarkdownView note_leaf"
    and q: "querySelector one_note (containerEl note_leaf) ''.cm-content'' = Some 2"
    and b: "in_body (document one_note 2)"
    and a: "editor_leaf_direction one_note note_leaf = Auto
            \<and> enableAdvancedTextDetection (settings one_note)
            \<and> editorMutationObserver one_note \<noteq> None"
    by (simp_all add: one_note_def note_leaf_def editor_node_def editor_leaf_direction_def
        DEFAULT_SETTINGS_def)
  have o1: "2 \<in> set (observedEditorElements w1)"
    unfolding w1_def using applyAllUiSettings_watchers [OF l q b] a by blast
  have h1: "querySelector w1 = querySelector one_note" "allLeaves w1 = allLeaves one_note"
    "activeNoteOverride w1 = activeNoteOverride one_note"
    "in_body (document w1 2) = in_body (document one_note 2)"
    unfolding w1_def using applyAllUiSettings_host [of u one_note 2] by simp_all
  have l': "note_leaf \<in> set (allLeaves w1')" "is_MarkdownView note_leaf"
    and q': "querySelector w1' (containerEl note_leaf) ''.cm-content'' = Some 2"
    and b': "in_body (document w1' 2)"
    and o': "2 \<in> set (observedEditorElements w1')"
    using l q b o1 h1 by (simp_all add: w1'_def)
  have d': "editor_leaf_direction w1' note_leaf = Ltr"
    using h1 by (simp add: w1'_def editor_leaf_direction_def editor_set_ltr_def one_note_def
        split: option.splits)
  have o2: "2 \<in> set (observedEditorElements (applyAllUiSettings u w1'))"
    using applyAllUiSettings_watchers [OF l' q' b'] o' by blast
  have h2: "settings (applyAllUiSettings u w1') = settings w1'"
    "activeFile (applyAllUiSettings u w1') = activeFile w1'"
    "activeNoteOverride (applyAllUiSettings u w1') = activeNoteOverride w1'"
    "in_body (document (applyAllUiSettings u w1') 2) = in_body (document w1' 2)"
    using applyAllUiSettings_host [of u w1' 2] by simp_all
  have d2: "editor_leaf_direction (applyAllUiSettings u w1') note_leaf = Ltr"
    using d' editor_leaf_direction_cong [OF h2(1-3), of note_leaf] by simp
  have s: "saveSettings u (editor_set_ltr (settings w1)) w1 = applyAllUiSettings u w1'"
    by (simp add: saveSettings_def w1'_def)
  from o1 o2 d2 b' h2 show ?thesis unfolding s [unfolded w1_def] w1_def [symmetric] s by simp
qed


section \<open>Debouncing\<close>

lemma deliver_in_window:
  assumes "\<forall>x\<in>set ns. start \<le> fst x \<and> fst x < start + delay"
    and "pending tm = [(i, due, b)]" and "start + delay \<le> due"
  shows "deliver delay ns (Some i, tm) = [snd (last ((due, b) # ns))]"
  using assms
proof (induction ns arbitrary: i tm due b)
  case Nil
  then show ?case by (simp add: run_all_def)
next
  case (Cons n ns)
  obtain t a where n: "n = (t, a)" by (cases n)
  from Cons.prems n have t: "start \<le> t" "t < due" by auto
  let ?tm = "tm\<lparr>next_id := Suc (next_id tm), pending := [(next_id tm, t + delay, a)]\<rparr>"
  have run: "run_due t tm = ([], tm)"
    using Cons.prems(2) t by (simp add: run_due_def)
  have deb: "debounced delay t a (Some i, tm) = (Some (next_id tm), ?tm)"
    using Cons.prems(2) by (simp add: debounced_def clearTimeout_def setTimeout_def)
  have "deliver delay ns (Some (next_id tm), ?tm) = [snd (last ((t + delay, a) # ns))]"
    using Cons.prems(1) t by (intro Cons.IH) simp_all
  then show ?case by (simp add: n run deb)
qed

lemma deliver_spaced:
  assumes "spaced_apart delay ns" and "pending tm = [(i, due, b)]"
    and "ns \<noteq> [] \<longrightarrow> due < fst (hd ns)"
  shows "deliver delay ns (Some i, tm) = b # map snd ns"
  using assms
proof (induction ns arbitrary: i tm due b)
  case Nil
  then show ?case by (simp add: run_all_def)
next
  case (Cons n ns)
  obtain t a where n: "n = (t, a)" by (cases n)
  from Cons.prems n have t: "due < t" by simp
  let ?cleared = "tm\<lparr>pending := []\<rparr>"
  let ?tm = "tm\<lparr>next_id := Suc (next_id tm), pending := [(next_id tm, t + delay, a)]\<rparr>"
  have run: "run_due t tm = ([b], ?cleared)"
    using Cons.prems(2) t by (simp add: run_due_def)
  have deb: "debounced delay t a (Some i, ?cleared) = (Some (next_id tm), ?tm)"
    by (simp add: debounced_def clearTimeout_def setTimeout_def)
  have sp: "spaced_apart delay ns" and nx: "ns \<noteq> [] \<longrightarrow> t + delay < fst (hd ns)"
    using Cons.prems(1) n by (cases ns; auto)+
  have "deliver delay ns (Some (next_id tm), ?tm) = a # map snd ns"
    using sp nx by (intro Cons.IH) simp_all
  then show ?case by (simp add: n run deb)
qed

lemma deliver_first:
  "deliver delay ((t, a) # ns) (None, no_timers)
     = deliver delay ns (Some 0, \<lparr>next_id = Suc 0, pending = [(0, t + delay, a)]\<rparr>)"
  by (simp add: run_due_def no_timers_def debounced_def setTimeout_def)

lemma debounce_burst:
  assumes "within_window delay ns"
  shows "deliver delay ns (None, no_timers) = [snd (last ns)]"
proof -
  from assms obtain t a ns' where ns: "ns = (t, a) # ns'"
    by (cases ns) (auto simp: within_window_def)
  have "\<forall>x\<in>set ns'. t \<le> fst x \<and> fst x < t + delay"
  proof
    fix x assume x: "x \<in> set ns'"
    then have "ns' \<noteq> []" by auto
    from assms ns have srt: "sorted (t # map fst ns')" and lst: "fst (last ns') < t + delay"
      using \<open>ns' \<noteq> []\<close> by (simp_all add: within_window_def)
    from srt x have 1: "t \<le> fst x" by auto
    from x obtain k where k: "k < length ns'" "ns' ! k = x" by (auto simp: in_set_conv_nth)
    from srt have "sorted (map fst ns')" by simp
    then have "map fst ns' ! k \<le> map fst ns' ! (length ns' - 1)"
      using k(1) by (intro sorted_nth_mono) auto
    then have "fst x \<le> fst (last ns')"
      using k \<open>ns' \<noteq> []\<close> by (simp add: last_conv_nth)
    with 1 lst show "t \<le> fst x \<and> fst x < t + delay" by simp
  qed
  then have "deliver delay ns' (Some 0, \<lparr>next_id = Suc 0, pending = [(0, t + delay, a)]\<rparr>)
               = [snd (last ((t + delay, a) # ns'))]"
    by (intro deliver_in_window [where start = t]) simp_all
  then show ?thesis unfolding ns deliver_first by simp
qed

lemma debounce_sparse:
  assumes "spaced_apart delay ns"
  shows "deliver delay ns (None, no_timers) = map snd ns"
proof (cases ns)
  case Nil
  then show ?thesis by (simp add: run_all_def no_timers_def)
next
  case (Cons n ns')
  obtain t a where n: "n = (t, a)" by (cases n)
  have sp: "spaced_apart delay ns'" and nx: "ns' \<noteq> [] \<longrightarrow> t + delay < fst (hd ns')"
    using assms Cons n by (cases ns'; auto)+
  have "deliver delay ns' (Some 0, \<lparr>next_id = Suc 0, pending = [(0, t + delay, a)]\<rparr>)
          = a # map snd ns'"
    using sp nx by (intro deliver_spaced) simp_all
  then show ?thesis unfolding Cons n deliver_first by simp
qed

text \<open>
  C8. Of notifications that all arrive within one window of 500 time units, the debounced
  handler passes on exactly one call, with the arguments of the last notification; of
  notifications each more than 500 time units after the one before, it passes on every
  one, in order.
\<close>

theorem debounce_one_call_per_window:
  "(within_window 500 ns \<longrightarrow>
      debouncedHandleEditorMutation_calls ns = [snd (last ns)]
      \<and> length (debouncedHandleEditorMutation_calls ns) = 1)
   \<and> (spaced_apart 500 ns \<longrightarrow>
      debouncedHandleEditorMutation_calls ns = map snd ns
      \<and> length (debouncedHandleEditorMutation_calls ns) = length ns)"
  unfolding debouncedHandleEditorMutation_calls_def
  by (simp add: debounce_burst debounce_sparse)

theorem debounce_one_call_per_window_witness:
  "within_window 500 burst \<and> length burst = 3
   \<and> debouncedHandleEditorMutation_calls burst = [[target_only 6]]
   \<and> spaced_apart 500 sparse
   \<and> debouncedHandleEditorMutation_calls sparse = [[target_only 2], [target_only 5], [target_only 6]]"
proof -
  have b: "within_window 500 burst" by (simp add: within_window_def burst_def)
  have s: "spaced_apart 500 sparse" by (simp add: sparse_def)
  from debounce_one_call_per_window [of burst] b
  have 1: "debouncedHandleEditorMutation_calls burst = [[target_only 6]]"
    by (simp add: burst_def)
  from debounce_one_call_per_window [of sparse] s
  have 2: "debouncedHandleEditorMutation_calls sparse
             = [[target_only 2], [target_only 5], [target_only 6]]"
    by (simp add: sparse_def)
  from b s 1 2 show ?thesis by (simp add: burst_def)
qed


section \<open>The note override wins for the editor\<close>

text \<open>With an override, the handlers do the same whatever the editor's setting is.\<close>

lemma apply_set_editor:
  "applyDirectionToElement u x dir (set_editor_setting e w)
     = set_editor_setting e (applyDirectionToElement u x dir w)"
proof (cases x)
  case None
  then show ?thesis by (simp add: applyDirectionToElement_def)
next
  case (Some el)
  then show ?thesis
    by (simp add: applyDirectionToElement_def set_editor_setting_def update_node_def Let_def)
qed

lemma reclassify_set_editor:
  assumes "activeNoteOverride w = Some d"
  shows "reclassify_editor u el (set_editor_setting e w)
           = set_editor_setting e (reclassify_editor u el w)"
  using assms
  by (simp add: reclassify_editor_def set_editor_setting_def update_node_def Let_def
      userDirectionForThisEditor_def split: option.splits)

lemma changed_set_editor:
  "changedEditorElements (set_editor_setting e w) ms acc = changedEditorElements w ms acc"
  by (induction ms arbitrary: acc)
     (simp_all add: observed_editor_of_def set_editor_setting_def)

lemma reclassify_all_set_editor:
  assumes "activeNoteOverride w = Some d"
  shows "foldl (\<lambda>w el. reclassify_editor u el w) (set_editor_setting e w) xs
           = set_editor_setting e (foldl (\<lambda>w el. reclassify_editor u el w) w xs)"
  using assms
proof (induction xs arbitrary: w)
  case Nil
  show ?case by simp
next
  case (Cons x xs)
  have "activeNoteOverride (reclassify_editor u x w) = Some d"
    using Cons.prems odc_fields(2) [OF odc_reclassify, of u x w] by simp
  from Cons.IH [OF this] show ?case
    by (simp add: reclassify_set_editor [OF Cons.prems])
qed

lemma hemi_set_editor:
  assumes "activeNoteOverride w = Some d"
  shows "handleEditorMutationInner u ms (set_editor_setting e w)
           = set_editor_setting e (handleEditorMutationInner u ms w)"
  by (simp add: handleEditorMutationInner_def changed_set_editor
      reclassify_all_set_editor [OF assms])

lemma set_editor_fields [simp]:
  "document (set_editor_setting e w) = document w"
  "activeNoteOverride (set_editor_setting e w) = activeNoteOverride w"
  "activeMarkdownView (set_editor_setting e w) = activeMarkdownView w"
  "querySelector (set_editor_setting e w) = querySelector w"
  "observedEditorElements (set_editor_setting e w) = observedEditorElements w"
  "editorMutationObserver (set_editor_setting e w) = editorMutationObserver w"
  "enableAdvancedTextDetection (settings (set_editor_setting e w))
     = enableAdvancedTextDetection (settings w)"
  by (simp_all add: set_editor_setting_def)

lemma refresh_unfold:
  assumes "activeMarkdownView w = Some a" and "view_file a = Some fl"
    and "querySelector w (containerEl a) ''.cm-content'' = Some el"
  shows "refreshActiveEditorDirection u w
           = (if directionToApply w = Auto
                 \<and> enableAdvancedTextDetection
                       (settings (applyDirectionToElement u (Some el) (directionToApply w) w))
                 \<and> editorMutationObserver
                       (applyDirectionToElement u (Some el) (directionToApply w) w) \<noteq> None
                 \<and> el \<in> set (observedEditorElements
                       (applyDirectionToElement u (Some el) (directionToApply w) w))
              then handleEditorMutationInner u [target_only el]
                     (applyDirectionToElement u (Some el) (directionToApply w) w)
              else applyDirectionToElement u (Some el) (directionToApply w) w)"
  unfolding refreshActiveEditorDirection_def Let_def using assms by simp

lemma refresh_set_editor:
  assumes "activeNoteOverride w = Some d"
  shows "refreshActiveEditorDirection u (set_editor_setting e w)
           = set_editor_setting e (refreshActiveEditorDirection u w)"
proof (cases "activeMarkdownView w")
  case None
  then show ?thesis by (simp add: refreshActiveEditorDirection_def)
next
  case (Some a)
  show ?thesis
  proof (cases "view_file a")
    case None
    with Some show ?thesis by (simp add: refreshActiveEditorDirection_def)
  next
    case vf: (Some fl)
    show ?thesis
    proof (cases "querySelector w (containerEl a) ''.cm-content''")
      case None
      with Some vf show ?thesis by (simp add: refreshActiveEditorDirection_def)
    next
      case el: (Some el)
      define v where "v = applyDirectionToElement u (Some el) d w"
      have dir: "directionToApply (set_editor_setting e w) = d" "directionToApply w = d"
        using assms by (simp_all add: directionToApply_def)
      have ov: "activeNoteOverride v = Some d"
        unfolding v_def using assms odc_fields(2) [OF odc_apply, of u "Some el" d w] by simp
      have a': "activeMarkdownView (set_editor_setting e w) = Some a"
        and el': "querySelector (set_editor_setting e w) (containerEl a) ''.cm-content'' = Some el"
        using Some el by simp_all
      show ?thesis
        unfolding refresh_unfold [OF Some vf el] refresh_unfold [OF a' vf el'] dir
          apply_set_editor v_def [symmetric]
        by (auto simp: hemi_set_editor [OF ov])
    qed
  qed
qed

text \<open>What the mutation handler does to a watched editor of the active file.\<close>

lemma hemi_single:
  assumes "is_element (document w el)" and "''cm-content'' \<in> classList (document w el)"
    and "el \<in> set (observedEditorElements w)" and "target m = el"
  shows "handleEditorMutationInner u [m] w = reclassify_editor u el w"
  using assms
  by (simp add: handleEditorMutationInner_def observed_editor_of_def set_add_def)

lemma reclassify_auto:
  assumes "userDirectionForThisEditor w = Auto" and "enableAdvancedTextDetection (settings w)"
    and "activeFile w = Some f"
    and "find (\<lambda>l. querySelector w (containerEl l) ''.cm-content'' = Some el) (markdownLeaves w)
           = Some ol"
    and "view_file ol = Some f"
  shows "data_effective_direction (document (reclassify_editor u el w) el)
           = Some (getBlockDirection u (JString (textContent (document w el))))"
  using assms by (simp add: reclassify_editor_def update_node_def Let_def)

lemma reclassify_concrete:
  assumes "userDirectionForThisEditor w \<noteq> Auto"
  shows "reclassify_editor u el w = w"
  using assms by (simp add: reclassify_editor_def Let_def split: option.splits)

lemma hemi_concrete:
  assumes "activeNoteOverride w = Some d" and "d \<noteq> Auto"
  shows "handleEditorMutationInner u ms w = w"
proof -
  have "foldl (\<lambda>w el. reclassify_editor u el w) w xs = w" for xs
    using assms
    by (induction xs) (simp_all add: reclassify_concrete userDirectionForThisEditor_def)
  then show ?thesis by (simp add: handleEditorMutationInner_def)
qed

text \<open>What a full pass writes as \<open>data-direction\<close> of an editor's content element.\<close>

lemma layout_refl: "layout_kept w w"
  by (simp add: layout_kept_def)

lemma layout_trans: "layout_kept w w' \<Longrightarrow> layout_kept w' w'' \<Longrightarrow> layout_kept w w''"
  by (simp add: layout_kept_def)

lemma odc_layout: "only_document_changed w w' \<Longrightarrow> layout_kept w w'"
  unfolding only_document_changed_def layout_kept_def
  by (metis world.select_convs world.surjective world.update_convs(7))

lemma layout_foldl:
  assumes "\<And>w x. layout_kept w (f w x)"
  shows "layout_kept w (foldl f w xs)"
proof (induction xs arbitrary: w)
  case Nil
  show ?case by (simp add: layout_refl)
next
  case (Cons x xs)
  show ?case using layout_trans [OF assms Cons.IH] by simp
qed

lemma layout_observe:
  "layout_kept w (put_observed k xs (put_observer k obs w))"
  by (cases k) (simp_all add: layout_kept_def put_observed_def put_observer_def)

lemma layout_manage: "layout_kept w (manageObserver u k e b name w)"
proof (cases "get_observer k w")
  case None
  then show ?thesis by (simp add: manageObserver_def layout_refl)
next
  case (Some targets)
  show ?thesis
  proof (cases e)
    case None
    with Some show ?thesis by (simp add: manageObserver_def layout_refl)
  next
    case el: (Some el)
    show ?thesis
      using Some el layout_observe
        layout_trans [OF layout_observe odc_layout [OF odc_hemi]]
      by (simp add: manageObserver_def Let_def layout_refl)
  qed
qed

lemma layout_cleanup: "layout_kept w (cleanupOldObservers k cur w)"
  by (cases k; simp add: layout_kept_def cleanupOldObservers_def Let_def put_observer_def
      put_observed_def split: option.splits)

lemma layout_apply_leaf: "layout_kept w (fst (apply_leaf u (w, ce, cc) l))"
proof (cases "is_MarkdownView l")
  case True
  show ?thesis
  proof (cases "querySelector w (containerEl l) ''.cm-content''")
    case None
    with True show ?thesis by (simp add: apply_leaf_def layout_refl)
  next
    case (Some el)
    show ?thesis
      unfolding apply_leaf_markdown [OF True Some]
      using layout_trans [OF odc_layout [OF odc_apply] layout_manage] by simp
  qed
next
  case False
  have cards: "layout_kept v (foldl (\<lambda>w cardEl. applyDirectionToElement u (cardContent w cardEl)
                  (direction (canvasCard (settings w))) w) v xs)" for v xs
    by (rule layout_foldl) (rule odc_layout [OF odc_apply])
  show ?thesis
  proof (cases "viewType l = ''canvas''")
    case canvas: True
    show ?thesis
    proof (cases "querySelector w (containerEl l) ''.canvas-nodes''")
      case None
      with False canvas show ?thesis by (simp add: apply_leaf_def Let_def cards)
    next
      case (Some cn)
      with False canvas show ?thesis
        using layout_trans [OF layout_manage cards] by (simp add: apply_leaf_def Let_def)
    qed
  next
    case other: False
    with False show ?thesis by (simp add: apply_leaf_def layout_refl)
  qed
qed

lemma dd_apply_other:
  "e \<noteq> Some el \<Longrightarrow>
     data_direction (document (applyDirectionToElement u e dir w) el)
       = data_direction (document w el)"
  by (cases e) (simp_all add: applyDirectionToElement_def update_node_def Let_def)

lemma dd_apply_same:
  "data_direction (document (applyDirectionToElement u (Some el) dir w) el)
     = (if in_body (document w el) then Some dir else data_direction (document w el))"
  by (simp add: applyDirectionToElement_def update_node_def Let_def)

lemma dd_manage:
  "data_direction (document (manageObserver u k e b name w) n) = data_direction (document w n)"
proof -
  have put: "document (put_observed k xs (put_observer k obs w)) = document w" for xs obs
    by (cases k) (simp_all add: put_observed_def put_observer_def)
  show ?thesis
    by (simp add: manageObserver_def Let_def data_direction_hemi put
        split: option.splits)
qed

lemma cardContent_cong: "querySelector w' = querySelector w \<Longrightarrow> cardContent w' c = cardContent w c"
  by (simp add: cardContent_def)

lemma dd_cards:
  assumes "\<forall>c\<in>set cs. cardContent w c \<noteq> Some el"
  shows "data_direction (document (foldl (\<lambda>w cardEl. applyDirectionToElement u
             (cardContent w cardEl) (direction (canvasCard (settings w))) w) w cs) el)
           = data_direction (document w el)"
  using assms
proof (induction cs arbitrary: w)
  case Nil
  show ?case by simp
next
  case (Cons c cs)
  let ?v = "applyDirectionToElement u (cardContent w c) (direction (canvasCard (settings w))) w"
  have q: "querySelector ?v = querySelector w" using kept_apply [of w] by (simp add: kept_def)
  have "\<forall>c\<in>set cs. cardContent ?v c \<noteq> Some el"
    using Cons.prems cardContent_cong [OF q] by simp
  from Cons.IH [OF this] Cons.prems show ?case by (simp add: dd_apply_other)
qed

lemma dd_apply_leaf_keep:
  assumes "leaf_spares d el w x" and "data_direction (document w el) = Some d"
  shows "data_direction (document (fst (apply_leaf u (w, ce, cc) x)) el) = Some d"
proof (cases "is_MarkdownView x")
  case True
  show ?thesis
  proof (cases "querySelector w (containerEl x) ''.cm-content''")
    case None
    with True assms show ?thesis by (simp add: apply_leaf_def)
  next
    case (Some y)
    show ?thesis
    proof (cases "y = el")
      case same: True
      with assms(1) True Some have "editor_leaf_direction w x = d"
        by (simp add: leaf_spares_def)
      with assms(2) same show ?thesis
        unfolding apply_leaf_markdown [OF True Some] by (simp add: dd_manage dd_apply_same)
    next
      case False
      with assms(2) show ?thesis
        unfolding apply_leaf_markdown [OF True Some] by (simp add: dd_manage dd_apply_other)
    qed
  qed
next
  case False
  show ?thesis
  proof (cases "viewType x = ''canvas''")
    case canvas: True
    define v where "v = (case querySelector w (containerEl x) ''.canvas-nodes'' of
                           None \<Rightarrow> w
                         | Some cn \<Rightarrow> manageObserver u CanvasWatcher (Some cn) True
                                        (''canvas-nodes-'' @ leaf_id x) w)"
    have kv: "kept w v" and lv: "layout_kept w v"
      and dv: "data_direction (document v el) = data_direction (document w el)"
      unfolding v_def
      by (simp_all add: kept_refl kept_manage layout_refl layout_manage dd_manage
          split: option.splits)
    have r: "fst (apply_leaf u (w, ce, cc) x)
               = foldl (\<lambda>w cardEl. applyDirectionToElement u (cardContent w cardEl)
                          (direction (canvasCard (settings w))) w)
                   v (querySelectorAll v (containerEl x) ''.canvas-card'')"
      using False canvas by (simp add: apply_leaf_def Let_def v_def split: option.splits)
    have "\<forall>c\<in>set (querySelectorAll w (containerEl x) ''.canvas-card''). cardContent w c \<noteq> Some el"
      using assms(1) False canvas by (simp add: leaf_spares_def)
    moreover have "querySelectorAll v = querySelectorAll w" using lv by (simp add: layout_kept_def)
    moreover have qv: "querySelector v = querySelector w" using kv by (simp add: kept_def)
    ultimately have "\<forall>c\<in>set (querySelectorAll v (containerEl x) ''.canvas-card'').
                        cardContent v c \<noteq> Some el"
      by (simp add: cardContent_cong [OF qv])
    from dd_cards [OF this] dv assms(2) show ?thesis unfolding r by simp
  next
    case other: False
    with False assms(2) show ?thesis by (simp add: apply_leaf_def)
  qed
qed

lemma leaf_spares_cong:
  assumes "kept w w'" and "layout_kept w w'"
  shows "leaf_spares d el w' x = leaf_spares d el w x"
proof -
  have q: "querySelector w' = querySelector w" and qa: "querySelectorAll w' = querySelectorAll w"
    using assms by (simp_all add: kept_def layout_kept_def)
  show ?thesis
    unfolding leaf_spares_def kept_direction [OF assms(1)]
    by (simp add: q qa cardContent_cong [OF q])
qed

lemma leaves_layout:
  "layout_kept (fst st) (fst (foldl (apply_leaf u) st ls))"
proof (induction ls arbitrary: st)
  case Nil
  show ?case by (simp add: layout_refl)
next
  case (Cons l ls)
  obtain w ce cc where st: "st = (w, ce, cc)" by (cases st)
  have "layout_kept (fst st) (fst (apply_leaf u st l))"
    unfolding st using layout_apply_leaf by simp
  from layout_trans [OF this Cons.IH] show ?case by simp
qed

lemma leaves_dd_keep:
  assumes "\<forall>x\<in>set ls. leaf_spares d el (fst st) x"
    and "data_direction (document (fst st) el) = Some d"
  shows "data_direction (document (fst (foldl (apply_leaf u) st ls)) el) = Some d"
  using assms
proof (induction ls arbitrary: st)
  case Nil
  then show ?case by simp
next
  case (Cons x ls)
  obtain w ce cc where st: "st = (w, ce, cc)" by (cases st)
  have k: "kept (fst st) (fst (apply_leaf u st x))"
    and l: "layout_kept (fst st) (fst (apply_leaf u st x))"
    unfolding st using apply_leaf_kept layout_apply_leaf by simp_all
  have 1: "\<forall>y\<in>set ls. leaf_spares d el (fst (apply_leaf u st x)) y"
    using Cons.prems(1) leaf_spares_cong [OF k l] by simp
  have 2: "data_direction (document (fst (apply_leaf u st x)) el) = Some d"
    using Cons.prems dd_apply_leaf_keep [of d el w x u ce cc] st by simp
  from Cons.IH [OF 1 2] show ?case by simp
qed

lemma leaves_dd_set:
  assumes "l \<in> set ls" and "is_MarkdownView l"
    and "querySelector (fst st) (containerEl l) ''.cm-content'' = Some el"
    and "in_body (document (fst st) el)"
    and "\<forall>x\<in>set ls. leaf_spares d el (fst st) x"
  shows "data_direction (document (fst (foldl (apply_leaf u) st ls)) el) = Some d"
  using assms
proof (induction ls arbitrary: st)
  case Nil
  then show ?case by simp
next
  case (Cons x ls)
  obtain w ce cc where st: "st = (w, ce, cc)" by (cases st)
  have k: "kept (fst st) (fst (apply_leaf u st x))"
    and ly: "layout_kept (fst st) (fst (apply_leaf u st x))"
    unfolding st using apply_leaf_kept layout_apply_leaf by simp_all
  have sp: "\<forall>y\<in>set ls. leaf_spares d el (fst (apply_leaf u st x)) y"
    using Cons.prems(5) leaf_spares_cong [OF k ly] by simp
  show ?case
  proof (cases "x = l")
    case True
    have "editor_leaf_direction w l = d"
      using Cons.prems st True by (simp add: leaf_spares_def)
    then have "data_direction (document (fst (apply_leaf u st x)) el) = Some d"
      using Cons.prems(2-4) st True
      by (simp add: apply_leaf_markdown dd_manage dd_apply_same)
    from leaves_dd_keep [OF sp this] show ?thesis by simp
  next
    case False
    with Cons.prems have l: "l \<in> set ls" by simp
    have q: "querySelector (fst (apply_leaf u st x)) (containerEl l) ''.cm-content'' = Some el"
      and b: "in_body (document (fst (apply_leaf u st x)) el)"
      using k Cons.prems(3,4) by (simp_all add: kept_def)
    from Cons.IH [OF l Cons.prems(2) q b sp] show ?thesis by simp
  qed
qed

lemma dd_pane:
  assumes "pane_spares el w x"
  shows "data_direction (document (apply_pane u w x) el) = data_direction (document w el)"
proof -
  have t: "or_else (querySelector w (containerEl x) s) (Some (containerEl x)) \<noteq> Some el"
    "or_else (querySelector w (containerEl x) s)
       (or_else (querySelector w (containerEl x) s') (Some (containerEl x))) \<noteq> Some el"
    if "viewType x = ''file-explorer'' \<or> viewType x = ''search'' \<or> viewType x = ''tag''"
    for s s'
    using assms that by (auto simp: pane_spares_def or_else_def split: option.splits)
  show ?thesis
    by (simp add: apply_pane_def dd_apply_other t)
qed

lemma dd_panes:
  assumes "\<forall>x\<in>set ls. pane_spares el w x"
  shows "data_direction (document (foldl (apply_pane u) w ls) el) = data_direction (document w el)"
  using assms
proof (induction ls arbitrary: w)
  case Nil
  show ?case by simp
next
  case (Cons x ls)
  have "querySelector (apply_pane u w x) = querySelector w"
    using kept_pane [of w u x] by (simp add: kept_def)
  then have "\<forall>y\<in>set ls. pane_spares el (apply_pane u w x) y"
    using Cons.prems by (simp add: pane_spares_def)
  from Cons.IH [OF this] Cons.prems show ?case by (simp add: dd_pane)
qed

lemma applyAllUiSettings_data_direction:
  assumes l: "l \<in> set (allLeaves w)" "is_MarkdownView l"
    and q: "querySelector w (containerEl l) ''.cm-content'' = Some el"
    and b: "in_body (document w el)"
    and sp: "\<forall>x\<in>set (allLeaves w). leaf_spares d el w x"
    and pn: "\<forall>x\<in>set (allLeaves w). pane_spares el w x"
    and lr: "leftSplit w \<noteq> el" "rightSplit w \<noteq> el"
  shows "data_direction (document (applyAllUiSettings u w) el) = Some d"
proof -
  obtain w1 ce cc where f: "foldl (apply_leaf u) (w, [], []) (allLeaves w) = (w1, ce, cc)"
    by (cases "foldl (apply_leaf u) (w, [], []) (allLeaves w)")
  have k1: "kept w w1" using leaves_kept [of "(w, [], [])" u "allLeaves w"] f by simp
  have l1: "layout_kept w w1" using leaves_layout [of "(w, [], [])" u "allLeaves w"] f by simp
  have d1: "data_direction (document w1 el) = Some d"
    using leaves_dd_set [of l "allLeaves w" "(w, [], [])" el d u] l q b sp f by simp
  define w2 where "w2 = cleanupOldObservers CanvasWatcher cc (cleanupOldObservers EditorWatcher ce w1)"
  define w3 where "w3 = applyDirectionToElement u (Some (leftSplit w2))
                          (direction (leftSidebar (settings w2))) w2"
  define w4 where "w4 = applyDirectionToElement u (Some (rightSplit w3))
                          (direction (rightSidebar (settings w3))) w3"
  have r: "applyAllUiSettings u w = foldl (apply_pane u) w4 (allLeaves w4)"
    by (simp add: applyAllUiSettings_def f Let_def w2_def w3_def w4_def)
  have l2: "layout_kept w1 w2"
    unfolding w2_def by (rule layout_trans [OF layout_cleanup layout_cleanup])
  have c2: "document w2 = document w1" "querySelector w2 = querySelector w1"
    "allLeaves w2 = allLeaves w1"
    unfolding w2_def by (simp_all add: cleanup_editor)
  have k3: "kept w2 w3" unfolding w3_def by (rule kept_apply)
  have l3: "layout_kept w2 w3" unfolding w3_def by (rule odc_layout [OF odc_apply])
  have k4: "kept w3 w4" unfolding w4_def by (rule kept_apply)
  have left: "leftSplit w2 = leftSplit w" and right: "rightSplit w3 = rightSplit w"
    using l1 l2 l3 by (simp_all add: layout_kept_def)
  have d3: "data_direction (document w3 el) = Some d"
    unfolding w3_def using d1 c2(1) left lr(1) by (simp add: dd_apply_other)
  have d4: "data_direction (document w4 el) = Some d"
    unfolding w4_def using d3 right lr(2) by (simp add: dd_apply_other)
  have q4: "querySelector w4 = querySelector w" and a4: "allLeaves w4 = allLeaves w"
    using k1 c2 k3 k4 by (simp_all add: kept_def)
  have "\<forall>x\<in>set (allLeaves w4). pane_spares el w4 x"
    using pn q4 a4 by (simp add: pane_spares_def)
  from dd_panes [OF this] d4 show ?thesis unfolding r by simp
qed

text \<open>
  C5. When the note override is not none, the direction used for the editor of the active
  note is the override and never \<open>settings.editor.direction\<close>, whatever the settings hold:
  \<^item> \<open>refreshActiveEditorDirection\<close> writes the override as \<open>data-direction\<close> of the active
    editor's content element, and what it does is the same for every editor setting;
  \<^item> what \<open>handleEditorMutationInner\<close> does is the same for every editor setting: with the
    override auto-detect (and detection on) it classifies the text of a watched editor of
    the active file and leaves the result as \<open>data-effective-direction\<close>, and with the
    override left-to-right or right-to-left it changes nothing;
  \<^item> in \<open>applyAllUiSettings\<close>, the step for a markdown leaf showing the active file writes
    the override as \<open>data-direction\<close> of its content element, and that is what the element
    carries after the pass when no other part of the pass writes it (it is not the content
    element of a leaf showing another file, a canvas card, a sidebar or a pane).
\<close>

theorem override_beats_editor_setting:
  assumes "activeNoteOverride w = Some d"
  shows "(activeMarkdownView w = Some a \<and> view_file a \<noteq> None
          \<and> querySelector w (containerEl a) ''.cm-content'' = Some el
          \<and> in_body (document w el)
        \<longrightarrow> data_direction (document (refreshActiveEditorDirection u w) el) = Some d)
     \<and> refreshActiveEditorDirection u (set_editor_setting e w)
         = set_editor_setting e (refreshActiveEditorDirection u w)
     \<and> handleEditorMutationInner u ms (set_editor_setting e w)
         = set_editor_setting e (handleEditorMutationInner u ms w)
     \<and> (d = Auto \<and> enableAdvancedTextDetection (settings w)
          \<and> is_element (document w el) \<and> ''cm-content'' \<in> classList (document w el)
          \<and> el \<in> set (observedEditorElements w) \<and> target m = el
          \<and> activeFile w = Some f
          \<and> find (\<lambda>x. querySelector w (containerEl x) ''.cm-content'' = Some el)
                (markdownLeaves w) = Some ol
          \<and> view_file ol = Some f
        \<longrightarrow> data_effective_direction (document (handleEditorMutationInner u [m] w) el)
              = Some (getBlockDirection u (JString (textContent (document w el)))))
     \<and> (d \<noteq> Auto \<longrightarrow> handleEditorMutationInner u ms w = w)
     \<and> (is_MarkdownView l \<and> activeFile w = Some f \<and> view_file l = Some f
          \<and> querySelector w (containerEl l) ''.cm-content'' = Some el
          \<and> in_body (document w el)
        \<longrightarrow> data_direction (document (fst (apply_leaf u (w, ce, cc) l)) el) = Some d)
     \<and> (l \<in> set (allLeaves w) \<and> is_MarkdownView l \<and> activeFile w = Some f
          \<and> view_file l = Some f
          \<and> querySelector w (containerEl l) ''.cm-content'' = Some el
          \<and> in_body (document w el)
          \<and> (\<forall>x\<in>set (allLeaves w).
                is_MarkdownView x \<and> querySelector w (containerEl x) ''.cm-content'' = Some el
                \<longrightarrow> view_file x = Some f)
          \<and> (\<forall>x\<in>set (allLeaves w).
                \<not> is_MarkdownView x \<and> viewType x = ''canvas''
                \<longrightarrow> (\<forall>c\<in>set (querySelectorAll w (containerEl x) ''.canvas-card'').
                       cardContent w c \<noteq> Some el))
          \<and> (\<forall>x\<in>set (allLeaves w).
                viewType x = ''file-explorer'' \<or> viewType x = ''search'' \<or> viewType x = ''tag''
                \<longrightarrow> containerEl x \<noteq> el
                    \<and> (\<forall>sel. querySelector w (containerEl x) sel \<noteq> Some el))
          \<and> leftSplit w \<noteq> el \<and> rightSplit w \<noteq> el
        \<longrightarrow> data_direction (document (applyAllUiSettings u w) el) = Some d)"
proof (intro conjI impI)
  have dir: "directionToApply w = d" using assms by (simp add: directionToApply_def)
  have usr: "userDirectionForThisEditor w = d"
    using assms by (simp add: userDirectionForThisEditor_def)
  have leaf: "editor_leaf_direction w x = d" if "activeFile w = Some f" "view_file x = Some f"
    for x using assms that by (simp add: editor_leaf_direction_def)
  show "data_direction (document (refreshActiveEditorDirection u w) el) = Some d"
    if h: "activeMarkdownView w = Some a \<and> view_file a \<noteq> None
          \<and> querySelector w (containerEl a) ''.cm-content'' = Some el
          \<and> in_body (document w el)"
    using h dir
    by (auto simp: refreshActiveEditorDirection_def Let_def data_direction_hemi
        apply_sets_data_direction)
  show "refreshActiveEditorDirection u (set_editor_setting e w)
          = set_editor_setting e (refreshActiveEditorDirection u w)"
    by (rule refresh_set_editor [OF assms])
  show "handleEditorMutationInner u ms (set_editor_setting e w)
          = set_editor_setting e (handleEditorMutationInner u ms w)"
    by (rule hemi_set_editor [OF assms])
  show "data_effective_direction (document (handleEditorMutationInner u [m] w) el)
          = Some (getBlockDirection u (JString (textContent (document w el))))"
    if h: "d = Auto \<and> enableAdvancedTextDetection (settings w)
          \<and> is_element (document w el) \<and> ''cm-content'' \<in> classList (document w el)
          \<and> el \<in> set (observedEditorElements w) \<and> target m = el
          \<and> activeFile w = Some f
          \<and> find (\<lambda>x. querySelector w (containerEl x) ''.cm-content'' = Some el)
                (markdownLeaves w) = Some ol
          \<and> view_file ol = Some f"
  proof -
    from h have "handleEditorMutationInner u [m] w = reclassify_editor u el w"
      by (intro hemi_single) simp_all
    moreover from h usr have "userDirectionForThisEditor w = Auto" by simp
    ultimately show ?thesis using h reclassify_auto [of w f el ol u] by simp
  qed
  show "handleEditorMutationInner u ms w = w" if "d \<noteq> Auto"
    by (rule hemi_concrete [OF assms that])
  show "data_direction (document (fst (apply_leaf u (w, ce, cc) l)) el) = Some d"
    if h: "is_MarkdownView l \<and> activeFile w = Some f \<and> view_file l = Some f
          \<and> querySelector w (containerEl l) ''.cm-content'' = Some el
          \<and> in_body (document w el)"
    using h leaf [of l] by (simp add: apply_leaf_markdown dd_manage dd_apply_same)
  show "data_direction (document (applyAllUiSettings u w) el) = Some d"
    if h: "l \<in> set (allLeaves w) \<and> is_MarkdownView l \<and> activeFile w = Some f
          \<and> view_file l = Some f
          \<and> querySelector w (containerEl l) ''.cm-content'' = Some el
          \<and> in_body (document w el)
          \<and> (\<forall>x\<in>set (allLeaves w).
                is_MarkdownView x \<and> querySelector w (containerEl x) ''.cm-content'' = Some el
                \<longrightarrow> view_file x = Some f)
          \<and> (\<forall>x\<in>set (allLeaves w).
                \<not> is_MarkdownView x \<and> viewType x = ''canvas''
                \<longrightarrow> (\<forall>c\<in>set (querySelectorAll w (containerEl x) ''.canvas-card'').
                       cardContent w c \<noteq> Some el))
          \<and> (\<forall>x\<in>set (allLeaves w).
                viewType x = ''file-explorer'' \<or> viewType x = ''search'' \<or> viewType x = ''tag''
                \<longrightarrow> containerEl x \<noteq> el
                    \<and> (\<forall>sel. querySelector w (containerEl x) sel \<noteq> Some el))
          \<and> leftSplit w \<noteq> el \<and> rightSplit w \<noteq> el"
  proof -
    have sp: "\<forall>x\<in>set (allLeaves w). leaf_spares d el w x"
    proof
      fix x assume x: "x \<in> set (allLeaves w)"
      have "editor_leaf_direction w x = d"
        if "is_MarkdownView x \<and> querySelector w (containerEl x) ''.cm-content'' = Some el"
        using h x that leaf [of x] by blast
      moreover have "\<forall>c\<in>set (querySelectorAll w (containerEl x) ''.canvas-card'').
                       cardContent w c \<noteq> Some el"
        if "\<not> is_MarkdownView x \<and> viewType x = ''canvas''"
        using h x that by blast
      ultimately show "leaf_spares d el w x" unfolding leaf_spares_def by blast
    qed
    have pn: "\<forall>x\<in>set (allLeaves w). pane_spares el w x"
      using h unfolding pane_spares_def by blast
    from h show ?thesis
      by (intro applyAllUiSettings_data_direction [OF _ _ _ _ sp pn, of l]) simp_all
  qed
qed

theorem override_beats_editor_setting_witness:
  "direction (editor (settings (note_overridden Auto Ltr))) = Ltr
   \<and> data_direction (document (refreshActiveEditorDirection sample_ucd
        (note_overridden Auto Ltr)) 2) = Some Auto
   \<and> data_effective_direction (document (note_overridden Auto Ltr) 2) = None
   \<and> data_effective_direction (document (handleEditorMutationInner sample_ucd [target_only 2]
        (note_overridden Auto Ltr)) 2) = Some Ltr
   \<and> data_direction (document (applyAllUiSettings sample_ucd (note_overridden Auto Ltr)) 2)
       = Some Auto
   \<and> direction (editor (settings (note_overridden Rtl Auto))) = Auto
   \<and> handleEditorMutationInner sample_ucd [target_only 2] (note_overridden Rtl Auto)
       = note_overridden Rtl Auto"
proof -
  let ?w = "note_overridden Auto Ltr"
  let ?v = "note_overridden Rtl Auto"
  note defs = note_overridden_def one_note_def note_leaf_def note_file_def editor_node_def
    plain_node_def DEFAULT_SETTINGS_def target_only_def
  have ov: "activeNoteOverride ?w = Some Auto" and ov': "activeNoteOverride ?v = Some Rtl"
    by (simp_all add: note_overridden_def)
  have st: "direction (editor (settings ?w)) = Ltr" "direction (editor (settings ?v)) = Auto"
    "data_effective_direction (document ?w 2) = None"
    by (simp_all add: defs)
  have ha: "activeMarkdownView ?w = Some note_leaf \<and> view_file note_leaf \<noteq> None
            \<and> querySelector ?w (containerEl note_leaf) ''.cm-content'' = Some 2
            \<and> in_body (document ?w 2)"
    by (simp add: defs)
  have hd: "Auto = Auto \<and> enableAdvancedTextDetection (settings ?w)
            \<and> is_element (document ?w 2) \<and> ''cm-content'' \<in> classList (document ?w 2)
            \<and> 2 \<in> set (observedEditorElements ?w) \<and> target (target_only 2) = 2
            \<and> activeFile ?w = Some note_file
            \<and> find (\<lambda>x. querySelector ?w (containerEl x) ''.cm-content'' = Some 2)
                  (markdownLeaves ?w) = Some note_leaf
            \<and> view_file note_leaf = Some note_file"
    by (simp add: defs)
  have hg: "note_leaf \<in> set (allLeaves ?w) \<and> is_MarkdownView note_leaf
            \<and> activeFile ?w = Some note_file \<and> view_file note_leaf = Some note_file
            \<and> querySelector ?w (containerEl note_leaf) ''.cm-content'' = Some 2
            \<and> in_body (document ?w 2)
            \<and> (\<forall>x\<in>set (allLeaves ?w).
                  is_MarkdownView x \<and> querySelector ?w (containerEl x) ''.cm-content'' = Some 2
                  \<longrightarrow> view_file x = Some note_file)
            \<and> (\<forall>x\<in>set (allLeaves ?w).
                  \<not> is_MarkdownView x \<and> viewType x = ''canvas''
                  \<longrightarrow> (\<forall>c\<in>set (querySelectorAll ?w (containerEl x) ''.canvas-card'').
                         cardContent ?w c \<noteq> Some 2))
            \<and> (\<forall>x\<in>set (allLeaves ?w).
                  viewType x = ''file-explorer'' \<or> viewType x = ''search'' \<or> viewType x = ''tag''
                  \<longrightarrow> containerEl x \<noteq> 2
                      \<and> (\<forall>sel. querySelector ?w (containerEl x) sel \<noteq> Some 2))
            \<and> leftSplit ?w \<noteq> 2 \<and> rightSplit ?w \<noteq> 2"
    by (simp add: defs)
  have ne: "Rtl \<noteq> Auto" by simp
  have cl: "getBlockDirection sample_ucd (JString (textContent (document ?w 2))) = Ltr"
    by (rule getBlockDirection_ltr)
  note t = override_beats_editor_setting [OF ov,
      of note_leaf 2 sample_ucd _ _ "target_only 2" note_file note_leaf note_leaf]
  note t' = override_beats_editor_setting [OF ov', of _ _ sample_ucd _ "[target_only 2]"]
  from t ha have 1: "data_direction (document (refreshActiveEditorDirection sample_ucd ?w) 2)
                       = Some Auto" by blast
  from t hd cl have 2: "data_effective_direction (document (handleEditorMutationInner sample_ucd
                          [target_only 2] ?w) 2) = Some Ltr" by simp
  from t hg have 3: "data_direction (document (applyAllUiSettings sample_ucd ?w) 2) = Some Auto"
    by blast
  from t' ne have 4: "handleEditorMutationInner sample_ucd [target_only 2] ?v = ?v" by blast
  from st 1 2 3 4 show ?thesis by simp
qed

end
